theory Spec2Isabelle
  imports Complex_Main
begin

section \<open>JavaScript numbers\<close>

text \<open>
  The program computes with JavaScript numbers and stores them in typed arrays. The model
  keeps the special values of IEEE arithmetic (the two infinities and NaN), because the
  program divides by a peak amplitude that may be zero and reads typed arrays out of range.
  Finite numbers are modelled as reals: rounding (to double, and to single precision on a
  store into a \<^verbatim>\<open>Float32Array\<close>), overflow and the sign of zero are not modelled.
\<close>

datatype jsnum = Fin real | PInf | NInf | NaN

fun isNeg :: "jsnum \<Rightarrow> bool" where
  "isNeg (Fin x) = (x < 0)"
| "isNeg NInf = True"
| "isNeg PInf = False"
| "isNeg NaN = False"

fun isZero :: "jsnum \<Rightarrow> bool" where
  "isZero (Fin x) = (x = 0)"
| "isZero PInf = False"
| "isZero NInf = False"
| "isZero NaN = False"

definition jinf :: "bool \<Rightarrow> jsnum" where
  "jinf negative = (if negative then NInf else PInf)"

fun jneg :: "jsnum \<Rightarrow> jsnum" where
  "jneg (Fin x) = Fin (- x)"
| "jneg PInf = NInf"
| "jneg NInf = PInf"
| "jneg NaN = NaN"

fun jadd :: "jsnum \<Rightarrow> jsnum \<Rightarrow> jsnum" where
  "jadd (Fin x) (Fin y) = Fin (x + y)"
| "jadd NaN b = NaN"
| "jadd a NaN = NaN"
| "jadd PInf NInf = NaN"
| "jadd NInf PInf = NaN"
| "jadd PInf b = PInf"
| "jadd a PInf = PInf"
| "jadd NInf b = NInf"
| "jadd a NInf = NInf"

definition jsub :: "jsnum \<Rightarrow> jsnum \<Rightarrow> jsnum" where
  "jsub a b = jadd a (jneg b)"

fun jmul :: "jsnum \<Rightarrow> jsnum \<Rightarrow> jsnum" where
  "jmul (Fin x) (Fin y) = Fin (x * y)"
| "jmul NaN b = NaN"
| "jmul a NaN = NaN"
| "jmul a b = (if isZero a \<or> isZero b then NaN else jinf (isNeg a \<noteq> isNeg b))"

fun jdiv :: "jsnum \<Rightarrow> jsnum \<Rightarrow> jsnum" where
  "jdiv (Fin x) (Fin y) =
     (if y \<noteq> 0 then Fin (x / y) else if x = 0 then NaN else jinf (x < 0))"
| "jdiv NaN b = NaN"
| "jdiv a NaN = NaN"
| "jdiv (Fin x) b = Fin 0"
| "jdiv a (Fin y) = jinf (isNeg a \<noteq> (y < 0))"
| "jdiv a b = NaN"

fun jabs :: "jsnum \<Rightarrow> jsnum" where
  "jabs (Fin x) = Fin \<bar>x\<bar>"
| "jabs PInf = PInf"
| "jabs NInf = PInf"
| "jabs NaN = NaN"

fun jsqrt :: "jsnum \<Rightarrow> jsnum" where
  "jsqrt (Fin x) = (if 0 \<le> x then Fin (sqrt x) else NaN)"
| "jsqrt PInf = PInf"
| "jsqrt NInf = NaN"
| "jsqrt NaN = NaN"

fun jexp :: "jsnum \<Rightarrow> jsnum" where
  "jexp (Fin x) = Fin (exp x)"
| "jexp PInf = PInf"
| "jexp NInf = Fin 0"
| "jexp NaN = NaN"

fun jcos :: "jsnum \<Rightarrow> jsnum" where
  "jcos (Fin x) = Fin (cos x)"
| "jcos a = NaN"

fun jsin :: "jsnum \<Rightarrow> jsnum" where
  "jsin (Fin x) = Fin (sin x)"
| "jsin a = NaN"

text \<open>\<^verbatim>\<open>Math.atan2(y, x)\<close> on finite arguments, with the angle in \<open>[-\<pi>, \<pi>]\<close>.\<close>

definition atan2r :: "real \<Rightarrow> real \<Rightarrow> real" where
  "atan2r y x =
     (if 0 < x then arctan (y / x)
      else if x < 0 then (if 0 \<le> y then arctan (y / x) + pi else arctan (y / x) - pi)
      else if 0 < y then pi / 2
      else if y < 0 then - pi / 2
      else 0)"

fun jatan2 :: "jsnum \<Rightarrow> jsnum \<Rightarrow> jsnum" where
  "jatan2 (Fin y) (Fin x) = Fin (atan2r y x)"
| "jatan2 NaN b = NaN"
| "jatan2 a NaN = NaN"
| "jatan2 (Fin y) PInf = Fin 0"
| "jatan2 (Fin y) NInf = Fin (if y < 0 then - pi else pi)"
| "jatan2 PInf (Fin x) = Fin (pi / 2)"
| "jatan2 NInf (Fin x) = Fin (- pi / 2)"
| "jatan2 PInf PInf = Fin (pi / 4)"
| "jatan2 PInf NInf = Fin (3 * pi / 4)"
| "jatan2 NInf PInf = Fin (- pi / 4)"
| "jatan2 NInf NInf = Fin (- 3 * pi / 4)"

text \<open>\<^verbatim>\<open>Math.pow(x, y)\<close> for a finite exponent \<open>y\<close> (the program only uses the
  exponents \<open>2\<close>, \<open>k\<close> and \<open>0.1\<close>).\<close>

definition isInt :: "real \<Rightarrow> bool" where
  "isInt y = (of_int \<lfloor>y\<rfloor> = y)"

fun jpow :: "jsnum \<Rightarrow> real \<Rightarrow> jsnum" where
  "jpow (Fin x) y =
     (if y = 0 then Fin 1
      else if 0 < x then Fin (x powr y)
      else if x = 0 then (if 0 < y then Fin 0 else PInf)
      else if isInt y then Fin ((if even \<lfloor>y\<rfloor> then 1 else - 1) * (\<bar>x\<bar> powr y))
      else NaN)"
| "jpow PInf y = (if y = 0 then Fin 1 else if 0 < y then PInf else Fin 0)"
| "jpow NInf y =
     (if y = 0 then Fin 1
      else if 0 < y then (if isInt y \<and> odd \<lfloor>y\<rfloor> then NInf else PInf)
      else Fin 0)"
| "jpow NaN y = (if y = 0 then Fin 1 else NaN)"

text \<open>Comparisons: every comparison with NaN is false.\<close>

fun jlt :: "jsnum \<Rightarrow> jsnum \<Rightarrow> bool" where
  "jlt (Fin x) (Fin y) = (x < y)"
| "jlt NaN b = False"
| "jlt a NaN = False"
| "jlt NInf NInf = False"
| "jlt NInf b = True"
| "jlt a NInf = False"
| "jlt PInf b = False"
| "jlt a PInf = True"

definition jgt :: "jsnum \<Rightarrow> jsnum \<Rightarrow> bool" where
  "jgt a b = jlt b a"

text \<open>\<^verbatim>\<open>Math.max\<close> and \<^verbatim>\<open>Math.min\<close> of two numbers: NaN when either is NaN.\<close>

fun jmax :: "jsnum \<Rightarrow> jsnum \<Rightarrow> jsnum" where
  "jmax NaN b = NaN"
| "jmax a NaN = NaN"
| "jmax a b = (if jlt a b then b else a)"

fun jmin :: "jsnum \<Rightarrow> jsnum \<Rightarrow> jsnum" where
  "jmin NaN b = NaN"
| "jmin a NaN = NaN"
| "jmin a b = (if jlt b a then b else a)"

text \<open>\<^verbatim>\<open>Math.max(...xs)\<close>: \<open>-Infinity\<close> for no argument. The language puts no bound on
  the number of arguments of a call; the bound of a particular engine on the length of a
  spread array is not modelled.\<close>

definition jmaxlist :: "jsnum list \<Rightarrow> jsnum" where
  "jmaxlist xs = fold (\<lambda>x acc. jmax acc x) xs NInf"

fun jfloor :: "jsnum \<Rightarrow> jsnum" where
  "jfloor (Fin x) = Fin (of_int \<lfloor>x\<rfloor>)"
| "jfloor a = a"

text \<open>\<^verbatim>\<open>Math.round\<close> rounds half up: \<open>\<lfloor>x + 1/2\<rfloor>\<close>.\<close>

fun jround :: "jsnum \<Rightarrow> jsnum" where
  "jround (Fin x) = Fin (of_int \<lfloor>x + 1 / 2\<rfloor>)"
| "jround a = a"

text \<open>A read of a typed array: out of range it yields \<^verbatim>\<open>undefined\<close>, which every
  arithmetic use in the program turns into NaN. A write out of range is ignored, as
  \<open>xs[i := v]\<close> does.\<close>

definition getf :: "jsnum list \<Rightarrow> nat \<Rightarrow> jsnum" where
  "getf a i = (if i < length a then a ! i else NaN)"

text \<open>Truncation towards zero, as the conversion of a finite number to an integer does.\<close>

definition truncInt :: "real \<Rightarrow> int" where
  "truncInt x = (if 0 \<le> x then \<lfloor>x\<rfloor> else \<lceil>x\<rceil>)"

text \<open>A store into a \<^verbatim>\<open>Uint8Array\<close>: NaN and the infinities become 0, a finite
  number is truncated towards zero and reduced modulo 256.\<close>

fun toUint8 :: "jsnum \<Rightarrow> nat" where
  "toUint8 (Fin x) = nat (truncInt x mod 256)"
| "toUint8 a = 0"

text \<open>\<^verbatim>\<open>slice(start, end)\<close> of a typed array, for finite arguments: both are truncated, a
  negative index counts from the end, and both are clamped into \<open>[0, length]\<close>.\<close>

definition sliceIndex :: "nat \<Rightarrow> real \<Rightarrow> nat" where
  "sliceIndex len x =
     (let relative = truncInt x
      in if relative < 0 then nat (max (int len + relative) 0)
         else nat (min relative (int len)))"

definition sliceOf :: "'a list \<Rightarrow> real \<Rightarrow> real \<Rightarrow> 'a list" where
  "sliceOf xs start end' =
     (let k = sliceIndex (length xs) start;
          final = sliceIndex (length xs) end'
      in take (final - k) (drop k xs))"

section \<open>Math helpers (mathHelpers.js)\<close>

text \<open>Both helpers are called with a taper index, a natural number.\<close>

fun factorial :: "nat \<Rightarrow> nat" where
  "factorial n = (if n \<le> 1 then 1 else n * factorial (n - 1))"

fun evaluateHermitePolynomial :: "nat \<Rightarrow> jsnum \<Rightarrow> jsnum" where
  "evaluateHermitePolynomial n x =
     (if n = 0 then Fin 1
      else if n = 1 then jmul (Fin 2) x
      else jsub (jmul (jmul (Fin 2) x) (evaluateHermitePolynomial (n - 1) x))
                (jmul (jmul (Fin 2) (Fin (real (n - 1)))) (evaluateHermitePolynomial (n - 2) x)))"

declare factorial.simps [simp del]
declare evaluateHermitePolynomial.simps [simp del]

section \<open>Window functions (utils/windowFunctions.js)\<close>

record hermite_bank =
  bank_h :: "jsnum list"
  bank_Dh :: "jsnum list"
  bank_Th :: "jsnum list"

text \<open>The time points \<open>t\<close>: \<^verbatim>\<open>dt = 2.0 * tm / (N - 1)\<close>, \<^verbatim>\<open>t[i] = -tm + i * dt\<close>.\<close>

definition timePoints :: "nat \<Rightarrow> real \<Rightarrow> jsnum list" where
  "timePoints N tm =
     (let dt = jdiv (jmul (Fin 2) (Fin tm)) (jsub (Fin (real N)) (Fin 1))
      in map (\<lambda>i. jadd (jneg (Fin tm)) (jmul (Fin (real i)) dt)) [0..<N])"

definition taperNorm :: "nat \<Rightarrow> jsnum" where
  "taperNorm k =
     jsqrt (jmul (jmul (jsqrt (Fin pi)) (jpow (Fin 2) (real k))) (Fin (real (factorial k))))"

text \<open>The right-hand sides of the three stores of the inner loop, for taper \<open>k\<close> at the
  time point \<open>x = t[i]\<close>.\<close>

definition hValue :: "nat \<Rightarrow> jsnum \<Rightarrow> jsnum" where
  "hValue k x =
     jdiv (jmul (evaluateHermitePolynomial k x) (jexp (jdiv (jmul (jneg x) x) (Fin 2))))
          (taperNorm k)"

definition DhValue :: "nat \<Rightarrow> jsnum \<Rightarrow> jsnum" where
  "DhValue k x =
     jdiv (jmul (jsub (jmul (Fin (real k)) (evaluateHermitePolynomial k x))
                      (jmul x (evaluateHermitePolynomial k x)))
                (jexp (jdiv (jmul (jneg x) x) (Fin 2))))
          (taperNorm k)"

text \<open>The body of the inner loop, for taper \<open>k\<close> and sample \<open>i\<close>: the store into
  \<open>Th\<close> reads back the entry of \<open>h\<close> just written.\<close>

definition sampleStep :: "jsnum list \<Rightarrow> nat \<Rightarrow> nat \<Rightarrow> nat \<Rightarrow> hermite_bank \<Rightarrow> hermite_bank" where
  "sampleStep t N k i b =
     (let x = getf t i;
          h1 = (bank_h b)[k * N + i := hValue k x];
          Dh1 = (bank_Dh b)[k * N + i := DhValue k x];
          Th1 = (bank_Th b)[k * N + i := jmul x (getf h1 (k * N + i))]
      in \<lparr>bank_h = h1, bank_Dh = Dh1, bank_Th = Th1\<rparr>)"

definition taperStep :: "jsnum list \<Rightarrow> nat \<Rightarrow> nat \<Rightarrow> hermite_bank \<Rightarrow> hermite_bank" where
  "taperStep t N k b = fold (sampleStep t N k) [0..<N] b"

definition createHermiteFunctions :: "nat \<Rightarrow> nat \<Rightarrow> real \<Rightarrow> hermite_bank" where
  "createHermiteFunctions N M tm =
     fold (taperStep (timePoints N tm) N) [0..<M]
       \<lparr>bank_h = replicate (M * N) (Fin 0),
        bank_Dh = replicate (M * N) (Fin 0),
        bank_Th = replicate (M * N) (Fin 0)\<rparr>"

section \<open>FFT (utils/fft.js)\<close>

text \<open>
  \<open>performFFT\<close> works on an interleaved array (real part at \<open>2 i\<close>, imaginary part at
  \<open>2 i + 1\<close>) of \<open>N\<close> complex numbers. Its only caller, \<open>computeSTFT\<close>, passes an array of
  even length, so \<open>N = length / 2\<close> is a natural number. The loop counters are natural
  numbers below \<open>2\<^sup>3\<^sup>0\<close>, where \<^verbatim>\<open>k >> 1\<close> is \<open>k div 2\<close> and \<^verbatim>\<open>step << 1\<close> is \<open>2 * step\<close>.
\<close>

text \<open>The inner loop of the bit reversal, \<^verbatim>\<open>while (k <= j) { j -= k; k >>= 1 }\<close>, returning
  \<open>(j, k)\<close>. It does not return once \<open>k\<close> has reached 0.\<close>

partial_function (option) bitrev_while :: "nat \<Rightarrow> nat \<Rightarrow> (nat \<times> nat) option" where
  "bitrev_while k j = (if k \<le> j then bitrev_while (k div 2) (j - k) else Some (j, k))"

text \<open>The swap of the complex entries \<open>i\<close> and \<open>j\<close>.\<close>

definition swap_complex :: "jsnum list \<Rightarrow> nat \<Rightarrow> nat \<Rightarrow> jsnum list" where
  "swap_complex fft i j =
     (let tempReal = getf fft (i * 2);
          tempImag = getf fft (i * 2 + 1);
          fft1 = fft[i * 2 := getf fft (j * 2)];
          fft2 = fft1[i * 2 + 1 := getf fft1 (j * 2 + 1)];
          fft3 = fft2[j * 2 := tempReal]
      in fft3[j * 2 + 1 := tempImag])"

text \<open>The bit reversal loop, \<^verbatim>\<open>for (let i = 0; i < N - 1; i++)\<close>, from the state \<open>(i, j, fft)\<close>.\<close>

function bitrev_loop :: "nat \<Rightarrow> nat \<Rightarrow> nat \<Rightarrow> jsnum list \<Rightarrow> jsnum list option" where
  "bitrev_loop N i j fft =
     (if i + 1 < N then
        (case bitrev_while (N div 2) j of
           None \<Rightarrow> None
         | Some (j', k) \<Rightarrow>
             bitrev_loop N (i + 1) (j' + k) (if i < j then swap_complex fft i j else fft))
      else Some fft)"
  by pat_completeness auto
termination
  by (relation "measure (\<lambda>(N, i, j, fft). N - i)") auto

declare bitrev_loop.simps [simp del]

text \<open>One butterfly: the body of the innermost loop.\<close>

definition butterfly :: "jsnum \<Rightarrow> jsnum \<Rightarrow> nat \<Rightarrow> nat \<Rightarrow> nat \<Rightarrow> jsnum list \<Rightarrow> jsnum list" where
  "butterfly cosVal sinVal step grp pair fft =
     (let groupOffset = grp * 2;
          pairOffset = pair * 2;
          evenIndex = groupOffset + pairOffset;
          oddIndex = evenIndex + step * 2;
          evenReal = getf fft evenIndex;
          evenImag = getf fft (evenIndex + 1);
          oddReal = getf fft oddIndex;
          oddImag = getf fft (oddIndex + 1);
          factor = jdiv (Fin (real pair)) (Fin (real step));
          rotReal = jmul cosVal factor;
          rotImag = jmul sinVal factor;
          tempReal = jsub (jmul oddReal rotReal) (jmul oddImag rotImag);
          tempImag = jadd (jmul oddReal rotImag) (jmul oddImag rotReal);
          fft1 = fft[oddIndex := jsub evenReal tempReal];
          fft2 = fft1[oddIndex + 1 := jsub evenImag tempImag];
          fft3 = fft2[evenIndex := jadd evenReal tempReal]
      in fft3[evenIndex + 1 := jadd evenImag tempImag])"

text \<open>\<^verbatim>\<open>for (let pair = 0; pair < step; pair++)\<close>, with \<open>cosVal\<close> and \<open>sinVal\<close> taken from
  \<open>angle\<close> as the group loop does.\<close>

definition pair_loop :: "jsnum \<Rightarrow> nat \<Rightarrow> nat \<Rightarrow> jsnum list \<Rightarrow> jsnum list" where
  "pair_loop angle step grp fft =
     fold (butterfly (jcos angle) (jsin angle) step grp) [0..<step] fft"

text \<open>\<^verbatim>\<open>for (let group = 0; group < N; group += step * 2)\<close> (\<open>grp\<close> stands for \<open>group\<close>). The loop is only entered with
  \<open>step \<ge> 1\<close> (the stage loop starts at 1 and doubles); the conjunct \<open>0 < step\<close> makes the
  recursion well-founded and is true at every call.\<close>

function group_loop :: "nat \<Rightarrow> nat \<Rightarrow> jsnum \<Rightarrow> nat \<Rightarrow> jsnum list \<Rightarrow> jsnum list" where
  "group_loop N step angle grp fft =
     (if grp < N \<and> 0 < step
      then group_loop N step angle (grp + step * 2) (pair_loop angle step grp fft)
      else fft)"
  by pat_completeness auto
termination
  by (relation "measure (\<lambda>(N, step, angle, grp, fft). N - grp)") auto

declare group_loop.simps [simp del]

text \<open>\<^verbatim>\<open>angle = -Math.PI / halfStep\<close>, where \<open>halfStep = step\<close>.\<close>

definition stageAngle :: "nat \<Rightarrow> jsnum" where
  "stageAngle step = jdiv (jneg (Fin pi)) (Fin (real step))"

text \<open>\<^verbatim>\<open>for (let step = 1; step < N; step <<= 1)\<close>.\<close>

function stage_loop :: "nat \<Rightarrow> nat \<Rightarrow> jsnum list \<Rightarrow> jsnum list" where
  "stage_loop N step fft =
     (if step < N \<and> 0 < step
      then stage_loop N (step * 2) (group_loop N step (stageAngle step) 0 fft)
      else fft)"
  by pat_completeness auto
termination
  by (relation "measure (\<lambda>(N, step, fft). N - step)") auto

declare stage_loop.simps [simp del]

definition performFFT :: "jsnum list \<Rightarrow> jsnum list option" where
  "performFFT input =
     (let N = length input div 2
      in case bitrev_loop N 0 0 input of
           None \<Rightarrow> None
         | Some fft \<Rightarrow> Some (stage_loop N 1 fft))"

text \<open>\<open>computeSTFT\<close>: the windowed samples, interleaved with zero imaginary parts, go
  through \<open>performFFT\<close>. The running maximum and sum of the windowed samples that the source
  also computes are never used and are left out.\<close>

definition computeSTFT :: "jsnum list \<Rightarrow> jsnum list \<Rightarrow> jsnum list option" where
  "computeSTFT data window =
     performFFT (concat (map (\<lambda>i. [jmul (getf data i) (getf window i), Fin 0])
                             [0..<length data]))"

section \<open>Time-frequency reassignment (timeFrequencyReassignment.js)\<close>

definition WINDOW_SIZE :: nat where
  "WINDOW_SIZE = 2048"

text \<open>A loop over a list whose body may not return.\<close>

fun ofold :: "('a \<Rightarrow> 's \<Rightarrow> 's option) \<Rightarrow> 'a list \<Rightarrow> 's \<Rightarrow> 's option" where
  "ofold f [] s = Some s"
| "ofold f (x # xs) s = (case f x s of None \<Rightarrow> None | Some s' \<Rightarrow> ofold f xs s')"

subsection \<open>One bin\<close>

text \<open>The magnitude of a bin: \<^verbatim>\<open>Math.sqrt(real * real + imag * imag)\<close>.\<close>

definition binMagnitude :: "jsnum list \<Rightarrow> nat \<Rightarrow> jsnum" where
  "binMagnitude stft bin =
     (let real' = getf stft (bin * 2);
          imag = getf stft (bin * 2 + 1)
      in jsqrt (jadd (jmul real' real') (jmul imag imag)))"

text \<open>The phase of a bin: \<^verbatim>\<open>Math.atan2(imag, real)\<close>.\<close>

definition binPhase :: "jsnum list \<Rightarrow> nat \<Rightarrow> jsnum" where
  "binPhase stft bin =
     (let real' = getf stft (bin * 2);
          imag = getf stft (bin * 2 + 1)
      in jatan2 imag real')"

text \<open>\<^verbatim>\<open>binFreq = (bin * sampleRate) / WINDOW_SIZE\<close>.\<close>

definition binFreqOf :: "real \<Rightarrow> nat \<Rightarrow> jsnum" where
  "binFreqOf sampleRate bin =
     jdiv (jmul (Fin (real bin)) (Fin sampleRate)) (Fin (real WINDOW_SIZE))"

text \<open>The weight that focuses on the 500 Hz range.\<close>

definition freqWeightOf :: "jsnum \<Rightarrow> jsnum" where
  "freqWeightOf binFreq =
     (let targetFreq = Fin 500
      in jexp (jdiv (jneg (jpow (jsub binFreq targetFreq) 2)) (Fin (2 * 100 * 100))))"

text \<open>The two wrapping loops,
  \<^verbatim>\<open>while (instFreqOffset > Math.PI) instFreqOffset -= 2 * Math.PI\<close> and
  \<^verbatim>\<open>while (instFreqOffset < -Math.PI) instFreqOffset += 2 * Math.PI\<close>. On an infinite
  value they would not return.\<close>

partial_function (option) wrapDown :: "jsnum \<Rightarrow> jsnum option" where
  "wrapDown x = (if jgt x (Fin pi) then wrapDown (jsub x (Fin (2 * pi))) else Some x)"

partial_function (option) wrapUp :: "jsnum \<Rightarrow> jsnum option" where
  "wrapUp x = (if jlt x (Fin (- pi)) then wrapUp (jadd x (Fin (2 * pi))) else Some x)"

text \<open>The frequency correction \<open>freqOffset\<close> in Hz of a bin that passed the threshold: the
  phase difference over \<open>2\<pi>\<close>, wrapped, scaled by \<open>sampleRate / WINDOW_SIZE\<close> and limited
  to \<open>\<plusminus>maxOffset\<close>.\<close>

definition offsetHz :: "real \<Rightarrow> jsnum list \<Rightarrow> jsnum list \<Rightarrow> nat \<Rightarrow> jsnum option" where
  "offsetHz sampleRate stft freqMod bin =
     (let phase = binPhase stft bin;
          freqPhase = binPhase freqMod bin
      in case wrapDown (jdiv (jsub freqPhase phase) (Fin (2 * pi))) of
           None \<Rightarrow> None
         | Some x \<Rightarrow>
             (case wrapUp x of
                None \<Rightarrow> None
              | Some instFreqOffset \<Rightarrow>
                  (let maxOffset = Fin 50
                   in Some (jmax (jneg maxOffset)
                              (jmin maxOffset
                                 (jdiv (jmul instFreqOffset (Fin sampleRate))
                                       (Fin (real WINDOW_SIZE))))))))"

text \<open>\<^verbatim>\<open>reassignedBin = Math.round((reassignedFreq * WINDOW_SIZE) / sampleRate)\<close> with
  \<^verbatim>\<open>reassignedFreq = binFreq + freqOffset\<close>.\<close>

definition reassignedBinOf :: "real \<Rightarrow> nat \<Rightarrow> jsnum \<Rightarrow> jsnum" where
  "reassignedBinOf sampleRate bin freqOffset =
     (let reassignedFreq = jadd (binFreqOf sampleRate bin) freqOffset
      in jround (jdiv (jmul reassignedFreq (Fin (real WINDOW_SIZE))) (Fin sampleRate)))"

text \<open>The energy \<^verbatim>\<open>mag * finalWeight\<close> that a bin adds at the reassigned bin.\<close>

definition contribution :: "real \<Rightarrow> nat \<Rightarrow> jsnum \<Rightarrow> jsnum \<Rightarrow> jsnum \<Rightarrow> jsnum" where
  "contribution sampleRate bin mag maxMag reassignedBin =
     (let distance = jabs (jsub reassignedBin (Fin (real bin)));
          sigma = 0.5;
          weight = jexp (jdiv (jmul (jneg distance) distance) (Fin (2 * sigma * sigma)));
          finalWeight = jmul (jmul weight (freqWeightOf (binFreqOf sampleRate bin)))
                             (jpow (jdiv mag maxMag) 2)
      in jmul mag finalWeight)"

text \<open>The state of the bin loop: the energy vector \<open>tfr\<close> of the frame, the running
  \<open>maxMagnitude\<close>, and the module-level buffer \<open>previousPhase\<close>.\<close>

record reassign_state =
  tfr :: "jsnum list"
  maxMagnitude :: jsnum
  previousPhase :: "jsnum list"

text \<open>The body of the bin loop. The test
  \<^verbatim>\<open>reassignedBin >= 0 && reassignedBin < WINDOW_SIZE / 2\<close> fails for NaN and for both
  infinities; under it \<open>reassignedBin\<close> is an integer (a result of \<^verbatim>\<open>Math.round\<close>) and
  indexes \<open>tfr\<close>.\<close>

definition binStep ::
  "real \<Rightarrow> jsnum list \<Rightarrow> jsnum list \<Rightarrow> nat \<Rightarrow> reassign_state \<Rightarrow> reassign_state option" where
  "binStep sampleRate stft freqMod bin s =
     (let mag = binMagnitude stft bin
      in if jgt mag (jmul (maxMagnitude s) (Fin 0.01)) then
           (let maxMagnitude1 = jmax (maxMagnitude s) mag;
                previousPhase1 = (previousPhase s)[bin := binPhase stft bin]
            in case offsetHz sampleRate stft freqMod bin of
                 None \<Rightarrow> None
               | Some freqOffset \<Rightarrow>
                   (case reassignedBinOf sampleRate bin freqOffset of
                      Fin r \<Rightarrow>
                        if 0 \<le> r \<and> r < real (WINDOW_SIZE div 2) then
                          Some \<lparr>tfr = (tfr s)[nat \<lfloor>r\<rfloor> :=
                                         jadd (getf (tfr s) (nat \<lfloor>r\<rfloor>))
                                              (contribution sampleRate bin mag maxMagnitude1 (Fin r))],
                                maxMagnitude = maxMagnitude1,
                                previousPhase = previousPhase1\<rparr>
                        else Some \<lparr>tfr = tfr s, maxMagnitude = maxMagnitude1,
                                   previousPhase = previousPhase1\<rparr>
                    | _ \<Rightarrow> Some \<lparr>tfr = tfr s, maxMagnitude = maxMagnitude1,
                                 previousPhase = previousPhase1\<rparr>))
         else Some s)"

subsection \<open>One taper, one frame\<close>

text \<open>The body of the taper loop: the two windows are slices of the bank, the two
  spectra come from \<open>computeSTFT\<close>, and the bin loop runs over
  \<open>0 \<le> bin < WINDOW_SIZE / 2\<close>.\<close>

definition taperPass ::
  "real \<Rightarrow> jsnum list \<Rightarrow> jsnum list \<Rightarrow> jsnum list \<Rightarrow> nat \<Rightarrow> reassign_state \<Rightarrow> reassign_state option" where
  "taperPass sampleRate hs Dhs frameData k s =
     (let timeWindow = sliceOf hs (real (k * WINDOW_SIZE)) (real ((k + 1) * WINDOW_SIZE));
          freqWindow = sliceOf Dhs (real (k * WINDOW_SIZE)) (real ((k + 1) * WINDOW_SIZE))
      in case computeSTFT frameData timeWindow of
           None \<Rightarrow> None
         | Some stft \<Rightarrow>
             (case computeSTFT frameData freqWindow of
                None \<Rightarrow> None
              | Some freqMod \<Rightarrow>
                  ofold (binStep sampleRate stft freqMod) [0..<WINDOW_SIZE div 2] s))"

text \<open>The frame handed to the FFT:
  \<^verbatim>\<open>normalizedData.slice(startIdx, startIdx + WINDOW_SIZE)\<close> with
  \<^verbatim>\<open>startIdx = frame * step\<close>. A slice ends where the array ends.\<close>

definition frameDataOf :: "jsnum list \<Rightarrow> real \<Rightarrow> nat \<Rightarrow> jsnum list" where
  "frameDataOf normalizedData step frame =
     (let startIdx = real frame * step
      in sliceOf normalizedData startIdx (startIdx + real WINDOW_SIZE))"

text \<open>One entry of the output:
  \<^verbatim>\<open>Math.min(255, Math.max(0, Math.pow(tfr[i] / maxVal, 0.1) * 255 * 5.0))\<close>, stored into
  a \<^verbatim>\<open>Uint8Array\<close>.\<close>

definition outputByte :: "jsnum \<Rightarrow> jsnum \<Rightarrow> nat" where
  "outputByte v maxVal =
     (let normalized = jdiv v maxVal;
          enhanced = jpow normalized 0.1
      in toUint8 (jmin (Fin 255) (jmax (Fin 0) (jmul (jmul enhanced (Fin 255)) (Fin 5)))))"

text \<open>The body of the frame loop, on the output array \<open>result\<close> and the buffer
  \<open>previousPhase\<close>.\<close>

definition frameStep ::
  "real \<Rightarrow> nat \<Rightarrow> jsnum list \<Rightarrow> jsnum list \<Rightarrow> jsnum list \<Rightarrow> real \<Rightarrow> nat \<Rightarrow>
   nat list \<times> jsnum list \<Rightarrow> (nat list \<times> jsnum list) option" where
  "frameStep sampleRate K hs Dhs normalizedData step frame st =
     (let frameData = frameDataOf normalizedData step frame;
          s0 = \<lparr>tfr = replicate (WINDOW_SIZE div 2) (Fin 0), maxMagnitude = Fin 0,
                previousPhase = snd st\<rparr>
      in case ofold (taperPass sampleRate hs Dhs frameData) [0..<K] s0 of
           None \<Rightarrow> None
         | Some s \<Rightarrow>
             (let maxVal = jmaxlist (tfr s)
              in Some (if jgt maxVal (Fin 0)
                       then fold (\<lambda>i r. r[i := outputByte (getf (tfr s) i) maxVal])
                              [0..<WINDOW_SIZE div 2] (fst st)
                       else fst st,
                       previousPhase s)))"

subsection \<open>The whole analysis\<close>

text \<open>\<^verbatim>\<open>maxAmp = Math.max(...audioData.map(Math.abs))\<close> and
  \<^verbatim>\<open>normalizedData[i] = (audioData[i] / maxAmp) * amplificationFactor\<close>.\<close>

definition normalizeAudio :: "jsnum list \<Rightarrow> jsnum list" where
  "normalizeAudio audioData =
     (let maxAmp = jmaxlist (map jabs audioData);
          amplificationFactor = Fin 200
      in map (\<lambda>x. jmul (jdiv x maxAmp) amplificationFactor) audioData)"

text \<open>\<^verbatim>\<open>nFrames = Math.max(1, Math.floor((audioData.length - WINDOW_SIZE) / step) + 1)\<close>.\<close>

definition nFramesOf :: "nat \<Rightarrow> real \<Rightarrow> jsnum" where
  "nFramesOf len step =
     jmax (Fin 1)
       (jadd (jfloor (jdiv (jsub (Fin (real len)) (Fin (real WINDOW_SIZE))) (Fin step)))
             (Fin 1))"

text \<open>The number of iterations of \<^verbatim>\<open>for (let frame = 0; frame < nFrames; frame++)\<close>:
  none for NaN, and the loop does not end for \<open>Infinity\<close>.\<close>

fun frameCount :: "jsnum \<Rightarrow> nat option" where
  "frameCount (Fin n) = Some (nat \<lceil>n\<rceil>)"
| "frameCount PInf = None"
| "frameCount NInf = Some 0"
| "frameCount NaN = Some 0"

text \<open>\<open>analyzeReassignment\<close>, with the module-level buffer \<open>previousPhase\<close> as an argument
  and as the second component of the result. The sample rate, the step and \<open>tm\<close> are finite
  numbers, the number of tapers \<open>K\<close> is a natural number.\<close>

definition analyzeReassignment ::
  "jsnum list \<Rightarrow> jsnum list \<Rightarrow> real \<Rightarrow> real \<Rightarrow> nat \<Rightarrow> real \<Rightarrow> (nat list \<times> jsnum list) option" where
  "analyzeReassignment prevPhase audioData sampleRate step K tm =
     (let bank = createHermiteFunctions WINDOW_SIZE K tm;
          normalizedData = normalizeAudio audioData;
          nFrames = nFramesOf (length audioData) step;
          result = replicate (WINDOW_SIZE div 2) 0
      in case frameCount nFrames of
           None \<Rightarrow> None
         | Some n \<Rightarrow>
             ofold (frameStep sampleRate K (bank_h bank) (bank_Dh bank) normalizedData step)
               [0..<n] (result, prevPhase))"


section \<open>Reference definitions of the specification\<close>

text \<open>The definitions of this section are not taken from the program: they state, over
  the reals and the integers, what the specification says, and name the inputs of its
  test scenarios.\<close>

text \<open>The physicists' Hermite polynomials, by the recurrence \<open>H\<^sub>0 = 1\<close>, \<open>H\<^sub>1 = 2x\<close>,
  \<open>H\<^sub>n = 2x H\<^sub>n\<^sub>-\<^sub>1 - 2(n-1) H\<^sub>n\<^sub>-\<^sub>2\<close>; the time axis \<open>t\<^sub>i = -tm + i (2 tm / (N - 1))\<close>; the
  normalisation \<open>sqrt (sqrt \<pi> 2\<^sup>k k!)\<close>.\<close>

fun hermiteH :: "nat \<Rightarrow> real \<Rightarrow> real" where
  "hermiteH 0 x = 1"
| "hermiteH (Suc 0) x = 2 * x"
| "hermiteH (Suc (Suc n)) x = 2 * x * hermiteH (Suc n) x - 2 * real (Suc n) * hermiteH n x"

definition spec_t :: "nat \<Rightarrow> real \<Rightarrow> nat \<Rightarrow> real" where
  "spec_t N tm i = - tm + real i * (2 * tm / (real N - 1))"

definition spec_norm :: "nat \<Rightarrow> real" where
  "spec_norm k = sqrt (sqrt pi * 2 ^ k * fact k)"

text \<open>The discrete Fourier transform: bin \<open>b\<close> is
  \<open>\<Sum>\<^sub>n x\<^sub>n e\<^sup>-\<^sup>2\<^sup>\<pi>\<^sup>i\<^sup>b\<^sup>n\<^sup>/\<^sup>N\<close>.\<close>

definition refDFT :: "complex list \<Rightarrow> nat \<Rightarrow> complex" where
  "refDFT x b = (\<Sum>n<length x. x ! n * cis (- 2 * pi * real b * real n / real (length x)))"

text \<open>The input of the impulse test: a single unit sample at the window centre
  \<open>N div 2\<close>, all other samples zero. The identity window is \<open>replicate N (Fin 1)\<close>.\<close>

definition impulse :: "nat \<Rightarrow> jsnum list" where
  "impulse N = (replicate N (Fin 0))[N div 2 := Fin 1]"

text \<open>The number of frames: \<open>max(1, floor((len - N) / step) + 1)\<close> with \<open>N\<close> the window
  size.\<close>

definition spec_nFrames :: "nat \<Rightarrow> real \<Rightarrow> int" where
  "spec_nFrames len step = max 1 (\<lfloor>(real len - real WINDOW_SIZE) / step\<rfloor> + 1)"

section \<open>Notions used in the proofs\<close>

text \<open>The \<open>m\<close>-bit reversal of \<open>i\<close>: for \<open>N = 2\<^sup>m\<close> the bit reversal loop keeps \<open>j\<close> equal to
  it.\<close>

fun rev_bits :: "nat \<Rightarrow> nat \<Rightarrow> nat" where
  "rev_bits 0 i = 0"
| "rev_bits (Suc m) i = (i mod 2) * 2 ^ m + rev_bits m (i div 2)"

text \<open>A value that is NaN or an angle in \<open>[-\<pi>, \<pi>]\<close>; a value that is NaN or a frequency
  correction in \<open>[-50, 50]\<close>.\<close>

fun isAngle :: "jsnum \<Rightarrow> bool" where
  "isAngle (Fin r) = (- pi \<le> r \<and> r \<le> pi)"
| "isAngle NaN = True"
| "isAngle PInf = False"
| "isAngle NInf = False"

fun isOffset :: "jsnum \<Rightarrow> bool" where
  "isOffset (Fin r) = (- 50 \<le> r \<and> r \<le> 50)"
| "isOffset NaN = True"
| "isOffset PInf = False"
| "isOffset NInf = False"

text \<open>Two states of the bin loop that agree on everything but the phase memory; two
  states of the frame loop that agree on the output array.\<close>

definition sameEnergy :: "reassign_state \<Rightarrow> reassign_state \<Rightarrow> bool" where
  "sameEnergy s t = (tfr s = tfr t \<and> maxMagnitude s = maxMagnitude t)"

definition sameResult :: "nat list \<times> jsnum list \<Rightarrow> nat list \<times> jsnum list \<Rightarrow> bool" where
  "sameResult a b = (fst a = fst b)"

text \<open>A spectrum whose real parts are all NaN (an entry out of range reads as NaN).\<close>

definition evensNaN :: "jsnum list \<Rightarrow> bool" where
  "evensNaN f = (\<forall>i. getf f (2 * i) = NaN)"

section \<open>The window bank: what the arrays hold\<close>

lemma factorial_fact: "factorial n = fact n"
proof (induction n)
  case 0 show ?case by (simp add: factorial.simps)
next
  case (Suc n)
  then show ?case by (cases n) (simp_all add: factorial.simps [of "Suc _"])
qed

lemma hermite_refines: "evaluateHermitePolynomial n (Fin x) = Fin (hermiteH n x)"
proof (induction n x rule: hermiteH.induct)
  case (1 x) show ?case by (simp add: evaluateHermitePolynomial.simps)
next
  case (2 x) show ?case by (simp add: evaluateHermitePolynomial.simps)
next
  case (3 n x)
  then show ?case
    by (simp add: evaluateHermitePolynomial.simps [of "Suc (Suc n)"] jsub_def)
qed

lemma taperNorm_fin: "taperNorm k = Fin (sqrt (sqrt pi * 2 ^ k * fact k))"
  by (cases "k = 0") (simp_all add: taperNorm_def factorial_fact powr_realpow)

lemma timePoints_length: "length (timePoints N tm) = N"
  by (simp add: timePoints_def Let_def)

lemma timePoints_nth:
  "2 \<le> N \<Longrightarrow> i < N \<Longrightarrow> timePoints N tm ! i = Fin (- tm + real i * (2 * tm / (real N - 1)))"
  by (simp add: timePoints_def Let_def jsub_def)

lemma sampleStep_sel:
  "bank_h (sampleStep t N k i b) = (bank_h b)[k * N + i := hValue k (getf t i)]"
  "bank_Dh (sampleStep t N k i b) = (bank_Dh b)[k * N + i := DhValue k (getf t i)]"
  "bank_Th (sampleStep t N k i b) =
     (bank_Th b)[k * N + i :=
        jmul (getf t i) (getf ((bank_h b)[k * N + i := hValue k (getf t i)]) (k * N + i))]"
  by (simp_all add: sampleStep_def Let_def)

lemma sampleFold_length:
  "length (bank_h (fold (sampleStep t N k) [0..<n] b)) = length (bank_h b) \<and>
   length (bank_Dh (fold (sampleStep t N k) [0..<n] b)) = length (bank_Dh b) \<and>
   length (bank_Th (fold (sampleStep t N k) [0..<n] b)) = length (bank_Th b)"
  by (induction n) (simp_all add: sampleStep_sel)

lemma sampleFold_h:
  "bank_h (fold (sampleStep t N k) [0..<n] b) ! idx =
     (if k * N \<le> idx \<and> idx < k * N + n \<and> idx < length (bank_h b)
      then hValue k (getf t (idx - k * N)) else bank_h b ! idx)"
proof (induction n)
  case 0
  show ?case by auto
next
  case (Suc n)
  show ?case
  proof (cases "idx = k * N + n")
    case True
    with Suc show ?thesis
      by (simp add: sampleStep_sel sampleFold_length list_update_beyond)
  next
    case False
    then have "(idx < k * N + Suc n) = (idx < k * N + n)" by arith
    with False Suc show ?thesis
      by (simp add: sampleStep_sel)
  qed
qed

lemma sampleFold_Dh:
  "bank_Dh (fold (sampleStep t N k) [0..<n] b) ! idx =
     (if k * N \<le> idx \<and> idx < k * N + n \<and> idx < length (bank_Dh b)
      then DhValue k (getf t (idx - k * N)) else bank_Dh b ! idx)"
proof (induction n)
  case 0
  show ?case by auto
next
  case (Suc n)
  show ?case
  proof (cases "idx = k * N + n")
    case True
    with Suc show ?thesis
      by (simp add: sampleStep_sel sampleFold_length list_update_beyond)
  next
    case False
    then have "(idx < k * N + Suc n) = (idx < k * N + n)" by arith
    with False Suc show ?thesis
      by (simp add: sampleStep_sel)
  qed
qed

lemma sampleFold_Th:
  assumes "length (bank_h b) = length (bank_Th b)"
  shows "bank_Th (fold (sampleStep t N k) [0..<n] b) ! idx =
     (if k * N \<le> idx \<and> idx < k * N + n \<and> idx < length (bank_Th b)
      then jmul (getf t (idx - k * N)) (hValue k (getf t (idx - k * N)))
      else bank_Th b ! idx)"
proof (induction n)
  case 0
  show ?case by auto
next
  case (Suc n)
  show ?case
  proof (cases "idx = k * N + n")
    case True
    with Suc show ?thesis
      using assms by (simp add: sampleStep_sel sampleFold_length getf_def list_update_beyond)
  next
    case False
    then have "(idx < k * N + Suc n) = (idx < k * N + n)" by arith
    with False Suc show ?thesis
      by (simp add: sampleStep_sel)
  qed
qed

lemma taperStep_length:
  "length (bank_h (taperStep t N k b)) = length (bank_h b)"
  "length (bank_Dh (taperStep t N k b)) = length (bank_Dh b)"
  "length (bank_Th (taperStep t N k b)) = length (bank_Th b)"
  by (simp_all add: taperStep_def sampleFold_length)

lemma taperFold_length:
  "length (bank_h (fold (taperStep t N) [0..<m] b)) = length (bank_h b) \<and>
   length (bank_Dh (fold (taperStep t N) [0..<m] b)) = length (bank_Dh b) \<and>
   length (bank_Th (fold (taperStep t N) [0..<m] b)) = length (bank_Th b)"
  by (induction m) (simp_all add: taperStep_length)

lemma block_index: "k < m \<Longrightarrow> i < N \<Longrightarrow> k * N + i < m * (N::nat)"
proof -
  assume "k < m" "i < N"
  then have "k * N + i < Suc k * N" by simp
  also have "\<dots> \<le> m * N" using \<open>k < m\<close> by (intro mult_le_mono1) simp
  finally show ?thesis .
qed

lemma taperFold_h:
  assumes "k < m" "i < N" "m * N \<le> length (bank_h b)"
  shows "bank_h (fold (taperStep t N) [0..<m] b) ! (k * N + i) = hValue k (getf t i)"
  using assms
proof (induction m)
  case 0
  then show ?case by simp
next
  case (Suc m)
  have lt: "m * N + i < Suc m * N" using Suc.prems(2) by simp
  show ?case
  proof (cases "k = m")
    case True
    with Suc.prems lt show ?thesis
      by (simp add: taperStep_def sampleFold_h taperFold_length [unfolded taperStep_def])
  next
    case False
    with Suc.prems have km: "k < m" by simp
    then have "k * N + i < m * N" using Suc.prems(2) by (rule block_index)
    with Suc km show ?thesis
      by (simp add: taperStep_def [of t N m] sampleFold_h)
  qed
qed

lemma taperFold_Dh:
  assumes "k < m" "i < N" "m * N \<le> length (bank_Dh b)"
  shows "bank_Dh (fold (taperStep t N) [0..<m] b) ! (k * N + i) = DhValue k (getf t i)"
  using assms
proof (induction m)
  case 0
  then show ?case by simp
next
  case (Suc m)
  have lt: "m * N + i < Suc m * N" using Suc.prems(2) by simp
  show ?case
  proof (cases "k = m")
    case True
    with Suc.prems lt show ?thesis
      by (simp add: taperStep_def sampleFold_Dh taperFold_length [unfolded taperStep_def])
  next
    case False
    with Suc.prems have km: "k < m" by simp
    then have "k * N + i < m * N" using Suc.prems(2) by (rule block_index)
    with Suc km show ?thesis
      by (simp add: taperStep_def [of t N m] sampleFold_Dh)
  qed
qed

lemma taperFold_Th:
  assumes "k < m" "i < N" "m * N \<le> length (bank_Th b)" "length (bank_h b) = length (bank_Th b)"
  shows "bank_Th (fold (taperStep t N) [0..<m] b) ! (k * N + i) =
         jmul (getf t i) (hValue k (getf t i))"
  using assms
proof (induction m)
  case 0
  then show ?case by simp
next
  case (Suc m)
  have lt: "m * N + i < Suc m * N" using Suc.prems(2) by simp
  have len: "length (bank_h (fold (taperStep t N) [0..<m] b)) =
             length (bank_Th (fold (taperStep t N) [0..<m] b))"
    using Suc.prems(4) by (simp add: taperFold_length)
  show ?case
  proof (cases "k = m")
    case True
    with Suc.prems lt show ?thesis
      by (simp add: taperStep_def [of t N m] sampleFold_Th [OF len] taperFold_length)
  next
    case False
    with Suc.prems have km: "k < m" by simp
    then have "k * N + i < m * N" using Suc.prems(2) by (rule block_index)
    with Suc km show ?thesis
      by (simp add: taperStep_def [of t N m] sampleFold_Th [OF len])
  qed
qed

lemma spec_norm_pos: "0 < spec_norm k"
  by (simp add: spec_norm_def)

lemma hValue_fin:
  "hValue k (Fin x) = Fin (hermiteH k x * exp (- (x\<^sup>2) / 2) / spec_norm k)"
  using spec_norm_pos [of k]
  by (simp add: hValue_def hermite_refines taperNorm_fin spec_norm_def power2_eq_square)

lemma DhValue_fin:
  "DhValue k (Fin x) =
     Fin ((real k * hermiteH k x - x * hermiteH k x) * exp (- (x\<^sup>2) / 2) / spec_norm k)"
  using spec_norm_pos [of k]
  by (simp add: DhValue_def hermite_refines taperNorm_fin spec_norm_def power2_eq_square jsub_def)

lemma getf_timePoints:
  "2 \<le> N \<Longrightarrow> i < N \<Longrightarrow> getf (timePoints N tm) i = Fin (spec_t N tm i)"
  by (simp add: getf_def timePoints_length timePoints_nth spec_t_def)

lemma bank_h_nth:
  assumes "2 \<le> N" "k < M" "i < N"
  shows "bank_h (createHermiteFunctions N M tm) ! (k * N + i) =
           Fin (hermiteH k (spec_t N tm i) * exp (- ((spec_t N tm i)\<^sup>2) / 2) / spec_norm k)"
  using assms
  by (simp add: createHermiteFunctions_def taperFold_h getf_timePoints hValue_fin)

lemma bank_Dh_nth:
  assumes "2 \<le> N" "k < M" "i < N"
  shows "bank_Dh (createHermiteFunctions N M tm) ! (k * N + i) =
           Fin ((real k * hermiteH k (spec_t N tm i) - spec_t N tm i * hermiteH k (spec_t N tm i))
                * exp (- ((spec_t N tm i)\<^sup>2) / 2) / spec_norm k)"
  using assms
  by (simp add: createHermiteFunctions_def taperFold_Dh getf_timePoints DhValue_fin)

lemma bank_Th_nth:
  assumes "2 \<le> N" "k < M" "i < N"
  shows "bank_Th (createHermiteFunctions N M tm) ! (k * N + i) =
           Fin (spec_t N tm i *
                (hermiteH k (spec_t N tm i) * exp (- ((spec_t N tm i)\<^sup>2) / 2) / spec_norm k))"
  using assms
  by (simp add: createHermiteFunctions_def taperFold_Th getf_timePoints hValue_fin)

text \<open>
  Claim C6. For every taper \<open>k < K\<close> and sample \<open>i < N\<close>, the arrays returned by
  \<open>createHermiteFunctions\<close> hold, in real arithmetic, \<open>t\<^sub>i = -tm + i (2 tm / (N - 1))\<close>,
  \<open>h[k N + i] = H\<^sub>k(t\<^sub>i) exp(-t\<^sub>i\<^sup>2 / 2) / norm\<^sub>k\<close>,
  \<open>Dh[k N + i] = (k H\<^sub>k(t\<^sub>i) - t\<^sub>i H\<^sub>k(t\<^sub>i)) exp(-t\<^sub>i\<^sup>2 / 2) / norm\<^sub>k\<close> and
  \<open>Th[k N + i] = t\<^sub>i h[k N + i]\<close>, with \<open>norm\<^sub>k = sqrt (sqrt \<pi> 2\<^sup>k k!)\<close> and \<open>H\<^sub>k\<close> given by
  the recurrence \<open>H\<^sub>0 = 1\<close>, \<open>H\<^sub>1 = 2x\<close>, \<open>H\<^sub>n = 2x H\<^sub>n\<^sub>-\<^sub>1 - 2(n-1) H\<^sub>n\<^sub>-\<^sub>2\<close>. The formula
  for \<open>t\<^sub>i\<close> divides by \<open>N - 1\<close>, so the statement is for \<open>N \<ge> 2\<close> (for \<open>N = 1\<close> the
  program computes \<open>0 * Infinity = NaN\<close>).
\<close>

theorem createHermiteFunctions_values:
  assumes "2 \<le> N" "k < K" "i < N"
  shows "timePoints N tm ! i = Fin (- tm + real i * (2 * tm / (real N - 1))) \<and>
         bank_h (createHermiteFunctions N K tm) ! (k * N + i) =
           Fin (hermiteH k (spec_t N tm i) * exp (- ((spec_t N tm i)\<^sup>2) / 2)
                / sqrt (sqrt pi * 2 ^ k * fact k)) \<and>
         bank_Dh (createHermiteFunctions N K tm) ! (k * N + i) =
           Fin ((real k * hermiteH k (spec_t N tm i) - spec_t N tm i * hermiteH k (spec_t N tm i))
                * exp (- ((spec_t N tm i)\<^sup>2) / 2) / sqrt (sqrt pi * 2 ^ k * fact k)) \<and>
         bank_Th (createHermiteFunctions N K tm) ! (k * N + i) =
           Fin (spec_t N tm i *
                (hermiteH k (spec_t N tm i) * exp (- ((spec_t N tm i)\<^sup>2) / 2)
                 / sqrt (sqrt pi * 2 ^ k * fact k)))"
  using assms
  by (simp add: timePoints_nth bank_h_nth bank_Dh_nth bank_Th_nth spec_norm_def)

theorem createHermiteFunctions_values_witness:
  "timePoints 2 6 ! 1 = Fin 6 \<and>
   bank_h (createHermiteFunctions 2 2 6) ! (1 * 2 + 1) =
     Fin (hermiteH 1 (spec_t 2 6 1) * exp (- ((spec_t 2 6 1)\<^sup>2) / 2)
          / sqrt (sqrt pi * 2 ^ 1 * fact 1)) \<and>
   bank_Dh (createHermiteFunctions 2 2 6) ! (1 * 2 + 1) =
     Fin ((real 1 * hermiteH 1 (spec_t 2 6 1) - spec_t 2 6 1 * hermiteH 1 (spec_t 2 6 1))
          * exp (- ((spec_t 2 6 1)\<^sup>2) / 2) / sqrt (sqrt pi * 2 ^ 1 * fact 1)) \<and>
   bank_Th (createHermiteFunctions 2 2 6) ! (1 * 2 + 1) =
     Fin (spec_t 2 6 1 *
          (hermiteH 1 (spec_t 2 6 1) * exp (- ((spec_t 2 6 1)\<^sup>2) / 2)
           / sqrt (sqrt pi * 2 ^ 1 * fact 1)))"
  using createHermiteFunctions_values [of 2 1 2 1 6] by simp

text \<open>
  Claim C10. For every taper \<open>k < M\<close> and sample \<open>i < N\<close> the three arrays satisfy
  \<open>Dh[k N + i] + Th[k N + i] = k h[k N + i]\<close> in real arithmetic: all three entries are
  finite numbers (for \<open>N \<ge> 2\<close>, where the time axis is defined) and the identity holds
  between them.
\<close>

theorem createHermiteFunctions_Dh_plus_Th:
  assumes "2 \<le> N" "k < M" "i < N"
  shows "\<exists>d t v. bank_Dh (createHermiteFunctions N M tm) ! (k * N + i) = Fin d \<and>
                 bank_Th (createHermiteFunctions N M tm) ! (k * N + i) = Fin t \<and>
                 bank_h (createHermiteFunctions N M tm) ! (k * N + i) = Fin v \<and>
                 d + t = real k * v"
proof -
  define x where "x = spec_t N tm i"
  define w where "w = hermiteH k x * exp (- (x\<^sup>2) / 2) / spec_norm k"
  have eq: "(real k * hermiteH k x - x * hermiteH k x) * exp (- (x\<^sup>2) / 2) / spec_norm k + x * w
            = real k * w"
    by (simp add: w_def algebra_simps diff_divide_distrib)
  have "bank_Dh (createHermiteFunctions N M tm) ! (k * N + i) =
          Fin ((real k * hermiteH k x - x * hermiteH k x) * exp (- (x\<^sup>2) / 2) / spec_norm k)"
    unfolding x_def by (rule bank_Dh_nth [OF assms])
  moreover have "bank_Th (createHermiteFunctions N M tm) ! (k * N + i) = Fin (x * w)"
    unfolding x_def w_def by (rule bank_Th_nth [OF assms])
  moreover have "bank_h (createHermiteFunctions N M tm) ! (k * N + i) = Fin w"
    unfolding x_def w_def by (rule bank_h_nth [OF assms])
  ultimately show ?thesis using eq by blast
qed

theorem createHermiteFunctions_Dh_plus_Th_witness:
  "\<exists>d t v. bank_Dh (createHermiteFunctions 2 2 6) ! (1 * 2 + 1) = Fin d \<and>
           bank_Th (createHermiteFunctions 2 2 6) ! (1 * 2 + 1) = Fin t \<and>
           bank_h (createHermiteFunctions 2 2 6) ! (1 * 2 + 1) = Fin v \<and>
           d + t = real 1 * v"
  using createHermiteFunctions_Dh_plus_Th [of 2 1 2 1 6] by simp

section \<open>The FFT: termination and invariants\<close>

subsection \<open>The inner loop of the bit reversal\<close>



lemma bitrev_while_exit: "j < k \<Longrightarrow> bitrev_while k j = Some (j, k)"
  by (subst bitrev_while.simps) simp

lemma bitrev_while_iter: "k \<le> j \<Longrightarrow> bitrev_while k j = bitrev_while (k div 2) (j - k)"
  by (subst bitrev_while.simps) simp

subsection \<open>The bit reversal loop on a power of two\<close>

lemma rev_bits_less: "rev_bits m i < 2 ^ m"
proof (induction m arbitrary: i)
  case 0
  show ?case by simp
next
  case (Suc m)
  have "i mod 2 = 0 \<or> i mod 2 = 1" by arith
  with Suc [of "i div 2"] show ?case by auto
qed

lemma rev_bits_carry:
  "i + 1 < 2 ^ Suc m \<Longrightarrow>
   \<exists>j' k. bitrev_while (2 ^ m) (rev_bits (Suc m) i) = Some (j', k) \<and>
          j' + k = rev_bits (Suc m) (Suc i)"
proof (induction m arbitrary: i)
  case 0
  then have "i = 0" by simp
  then show ?case by (simp add: bitrev_while_exit)
next
  case (Suc m)
  let ?r = "rev_bits (Suc m) (i div 2)"
  have r: "?r < 2 ^ Suc m" by (rule rev_bits_less)
  show ?case
  proof (cases "even i")
    case True
    then have eq: "rev_bits (Suc (Suc m)) i = ?r"
      and nx: "rev_bits (Suc (Suc m)) (Suc i) = 2 ^ Suc m + ?r"
      by (simp_all add: rev_bits.simps(2) [of "Suc m"] mod_Suc)
    show ?thesis
      unfolding eq nx using r by (simp add: bitrev_while_exit)
  next
    case False
    then have odd: "i mod 2 = 1" by presburger
    have eq: "rev_bits (Suc (Suc m)) i = 2 ^ Suc m + ?r"
      using odd by (simp add: rev_bits.simps(2) [of "Suc m"])
    have sd: "Suc i div 2 = Suc (i div 2)" "Suc i mod 2 = 0"
      using odd by presburger+
    have nx: "rev_bits (Suc (Suc m)) (Suc i) = rev_bits (Suc m) (Suc (i div 2))"
      using sd by (simp add: rev_bits.simps(2) [of "Suc m"])
    have "i div 2 + 1 < 2 ^ Suc m"
      using Suc.prems odd by simp presburger
    from Suc.IH [OF this]
    obtain j' k where "bitrev_while (2 ^ m) ?r = Some (j', k)"
      and "j' + k = rev_bits (Suc m) (Suc (i div 2))" by blast
    moreover have "bitrev_while (2 ^ Suc m) (2 ^ Suc m + ?r) = bitrev_while (2 ^ m) ?r"
      by (subst bitrev_while_iter) simp_all
    ultimately show ?thesis unfolding eq nx by simp
  qed
qed

lemma bitrev_loop_step:
  assumes "i + 1 < 2 ^ m"
  shows "bitrev_loop (2 ^ m) i (rev_bits m i) fft =
         bitrev_loop (2 ^ m) (Suc i) (rev_bits m (Suc i))
           (if i < rev_bits m i then swap_complex fft i (rev_bits m i) else fft)"
proof -
  from assms obtain n where m: "m = Suc n" by (cases m) auto
  from rev_bits_carry [of i n] assms m
  obtain j' k where "bitrev_while (2 ^ n) (rev_bits m i) = Some (j', k)"
    and "j' + k = rev_bits m (Suc i)" by auto
  then show ?thesis
    using assms m by (subst bitrev_loop.simps) simp
qed

lemma bitrev_loop_exit: "\<not> i + 1 < N \<Longrightarrow> bitrev_loop N i j fft = Some fft"
  by (subst bitrev_loop.simps) simp

lemma bitrev_loop_inv:
  assumes "Q fft" "i0 \<le> i"
    and "\<And>f a b. Q f \<Longrightarrow> i0 \<le> a \<Longrightarrow> a < b \<Longrightarrow> b < 2 ^ m \<Longrightarrow> Q (swap_complex f a b)"
  shows "\<exists>out. bitrev_loop (2 ^ m) i (rev_bits m i) fft = Some out \<and> Q out"
  using assms(1,2)
proof (induction "2 ^ m - i" arbitrary: i fft)
  case 0
  then show ?case by (simp add: bitrev_loop_exit)
next
  case (Suc n)
  show ?case
  proof (cases "i + 1 < 2 ^ m")
    case False
    with Suc.prems show ?thesis by (simp add: bitrev_loop_exit)
  next
    case True
    let ?fft = "if i < rev_bits m i then swap_complex fft i (rev_bits m i) else fft"
    have q: "Q ?fft"
      using Suc.prems assms(3) [of fft i "rev_bits m i"] rev_bits_less [of m i] by simp
    have n: "n = 2 ^ m - Suc i" using Suc.hyps(2) by simp
    have i0: "i0 \<le> Suc i" using Suc.prems by simp
    have "\<exists>out. bitrev_loop (2 ^ m) (Suc i) (rev_bits m (Suc i)) ?fft = Some out \<and> Q out"
      by (rule Suc.hyps(1) [OF n q i0])
    then show ?thesis by (simp only: bitrev_loop_step [OF True])
  qed
qed

subsection \<open>Invariants of the butterfly stages\<close>

lemma rev_bits_zero: "rev_bits m 0 = 0"
  by (induction m) simp_all

lemma pair_loop_inv:
  assumes "Q fft"
    and "\<And>f pair. Q f \<Longrightarrow> pair < step \<Longrightarrow> Q (butterfly (jcos angle) (jsin angle) step grp pair f)"
  shows "Q (pair_loop angle step grp fft)"
proof -
  have "n \<le> step \<Longrightarrow> Q (fold (butterfly (jcos angle) (jsin angle) step grp) [0..<n] fft)" for n
    by (induction n) (simp_all add: assms)
  then show ?thesis by (simp add: pair_loop_def)
qed

lemma group_loop_exit: "\<not> (grp < N \<and> 0 < step) \<Longrightarrow> group_loop N step angle grp fft = fft"
  by (subst group_loop.simps) (simp only: if_False)

lemma group_loop_iter:
  "grp < N \<Longrightarrow> 0 < step \<Longrightarrow>
   group_loop N step angle grp fft =
   group_loop N step angle (grp + step * 2) (pair_loop angle step grp fft)"
  by (subst group_loop.simps) (simp only: simp_thms if_True)

lemma stage_loop_exit: "\<not> (step < N \<and> 0 < step) \<Longrightarrow> stage_loop N step fft = fft"
  by (subst stage_loop.simps) (simp only: if_False)

lemma stage_loop_iter:
  "step < N \<Longrightarrow> 0 < step \<Longrightarrow>
   stage_loop N step fft =
   stage_loop N (step * 2) (group_loop N step (stageAngle step) 0 fft)"
  by (subst stage_loop.simps) (simp only: simp_thms if_True)

lemma group_loop_inv:
  assumes bp: "\<And>f g pair. Q f \<Longrightarrow> pair < step \<Longrightarrow> g + step * 2 \<le> N \<Longrightarrow>
                 Q (butterfly (jcos angle) (jsin angle) step g pair f)"
    and "Q fft" "step * 2 dvd N" "step * 2 dvd grp"
  shows "Q (group_loop N step angle grp fft)"
  using assms(2,4)
proof (induction "N - grp" arbitrary: grp fft rule: less_induct)
  case less
  show ?case
  proof (cases "grp < N \<and> 0 < step")
    case False
    then show ?thesis using less.prems(1) by (simp only: group_loop_exit [OF False])
  next
    case True
    from assms(3) less.prems(2) obtain a b where ab: "N = step * 2 * a" "grp = step * 2 * b"
      by (auto elim!: dvdE)
    with True have "b < a" by simp
    then have "Suc b \<le> a" by simp
    then have "step * 2 * Suc b \<le> step * 2 * a" by (rule mult_le_mono2)
    then have le: "grp + step * 2 \<le> N" using ab by simp
    have q: "Q (pair_loop angle step grp fft)"
    proof (rule pair_loop_inv [where Q = Q, OF less.prems(1)])
      fix f pair
      assume "Q f" "pair < step"
      then show "Q (butterfly (jcos angle) (jsin angle) step grp pair f)"
        using le by (rule bp)
    qed
    have "N - (grp + step * 2) < N - grp" using True by arith
    moreover have "step * 2 dvd grp + step * 2" using less.prems(2) by simp
    ultimately have "Q (group_loop N step angle (grp + step * 2) (pair_loop angle step grp fft))"
      using q by (intro less.hyps)
    then show ?thesis using True by (simp only: group_loop_iter [of grp N step])
  qed
qed

lemma stage_loop_inv:
  assumes bp: "\<And>f step g pair. Q f \<Longrightarrow> pair < step \<Longrightarrow> g + step * 2 \<le> 2 ^ m \<Longrightarrow>
                 Q (butterfly (jcos (stageAngle step)) (jsin (stageAngle step)) step g pair f)"
    and "Q fft"
  shows "Q (stage_loop (2 ^ m) (2 ^ n) fft)"
  using assms(2)
proof (induction "m - n" arbitrary: n fft)
  case 0
  then have "\<not> ((2::nat) ^ n < 2 ^ m \<and> 0 < (2::nat) ^ n)" by simp
  from stage_loop_exit [OF this] show ?case using "0.prems" by simp
next
  case (Suc d)
  then have lt: "n < m" by simp
  then have dvd: "(2::nat) ^ n * 2 dvd 2 ^ m"
    using le_imp_power_dvd [of "Suc n" m "2::nat"] by (simp add: mult.commute)
  have q: "Q (group_loop (2 ^ m) (2 ^ n) (stageAngle (2 ^ n)) 0 fft)"
    by (rule group_loop_inv [where Q = Q, OF bp Suc.prems dvd]) simp_all
  have "d = m - Suc n" using Suc.hyps(2) by simp
  from Suc.hyps(1) [OF this q]
  have "Q (stage_loop (2 ^ m) (2 ^ Suc n)
             (group_loop (2 ^ m) (2 ^ n) (stageAngle (2 ^ n)) 0 fft))" .
  moreover have "(2::nat) ^ n < 2 ^ m" using lt by simp
  ultimately show ?case by (simp add: stage_loop_iter [of "2 ^ n" "2 ^ m"] mult.commute [of "2 ^ n" 2])
qed

lemma performFFT_inv:
  assumes len: "length input = 2 * 2 ^ m"
    and q: "Q input"
    and sw: "\<And>f a b. Q f \<Longrightarrow> a < b \<Longrightarrow> b < 2 ^ m \<Longrightarrow> Q (swap_complex f a b)"
    and bp: "\<And>f step g pair. Q f \<Longrightarrow> pair < step \<Longrightarrow> g + step * 2 \<le> 2 ^ m \<Longrightarrow>
                 Q (butterfly (jcos (stageAngle step)) (jsin (stageAngle step)) step g pair f)"
  shows "\<exists>out. performFFT input = Some out \<and> Q out"
proof -
  have "\<exists>out. bitrev_loop (2 ^ m) 0 (rev_bits m 0) input = Some out \<and> Q out"
    by (rule bitrev_loop_inv [where ?i0.0 = 0 and Q = Q and fft = input]) (simp_all add: sw q)
  then obtain fft where b: "bitrev_loop (2 ^ m) 0 0 input = Some fft" and "Q fft"
    by (auto simp: rev_bits_zero)
  have "Q (stage_loop (2 ^ m) (2 ^ 0) fft)"
    by (rule stage_loop_inv [where Q = Q, OF bp \<open>Q fft\<close>])
  then show ?thesis using b len by (simp add: performFFT_def)
qed

section \<open>The FFT against the discrete Fourier transform\<close>

text \<open>
  Claim C1 says that \<open>performFFT\<close> computes the discrete Fourier transform \<open>refDFT\<close> for
  every power-of-two length.
  It does not: the butterfly multiplies the odd entry by \<open>(pair / step) e\<^sup>-\<^sup>i\<^sup>\<pi>\<^sup>/\<^sup>s\<^sup>t\<^sup>e\<^sup>p\<close>
  (the fixed rotation scaled by \<open>pair / step\<close>) instead of \<open>e\<^sup>-\<^sup>i\<^sup>\<pi>\<^sup>p\<^sup>a\<^sup>i\<^sup>r\<^sup>/\<^sup>s\<^sup>t\<^sup>e\<^sup>p\<close>, so for
  \<open>pair = 0\<close> the factor is 0 instead of 1. For the two samples \<open>(1, 1)\<close> the program
  returns \<open>(1, 1)\<close>, while the transform is \<open>(2, 0)\<close>.
\<close>

theorem performFFT_differs_from_DFT:
  "performFFT [Fin 1, Fin 0, Fin 1, Fin 0] = Some [Fin 1, Fin 0, Fin 1, Fin 0] \<and>
   refDFT [1, 1] 0 = 2 \<and> refDFT [1, 1] 1 = 0"
proof -
  have "performFFT [Fin 1, Fin 0, Fin 1, Fin 0] = Some [Fin 1, Fin 0, Fin 1, Fin 0]"
    by (simp add: performFFT_def bitrev_loop.simps bitrev_while_exit stage_loop.simps
        group_loop.simps pair_loop_def butterfly_def stageAngle_def Let_def getf_def jsub_def)
  moreover have "refDFT [1, 1] 0 = 2 \<and> refDFT [1, 1] 1 = 0"
    by (simp add: refDFT_def lessThan_Suc numeral_2_eq_2 complex_eq_iff)
  ultimately show ?thesis by simp
qed

section \<open>The FFT engine on an impulse\<close>

lemma interleave_length: "length (concat (map (\<lambda>i. [f i, g i]) [0..<n])) = 2 * n"
  by (induction n) simp_all

lemma interleave_nth:
  "i < n \<Longrightarrow> concat (map (\<lambda>i. [f i, g i]) [0..<n]) ! (2 * i) = f i \<and>
            concat (map (\<lambda>i. [f i, g i]) [0..<n]) ! (2 * i + 1) = g i"
proof (induction n)
  case 0
  then show ?case by simp
next
  case (Suc n)
  show ?case
  proof (cases "i = n")
    case True
    then show ?thesis by (simp add: nth_append interleave_length)
  next
    case False
    with Suc have "i < n" by simp
    with Suc.IH show ?thesis by (simp add: nth_append interleave_length)
  qed
qed





lemma butterfly_length: "length (butterfly c s step g pair f) = length f"
  by (simp add: butterfly_def Let_def)

lemma swap_complex_length: "length (swap_complex f a b) = length f"
  by (simp add: swap_complex_def Let_def)









lemma computeSTFT_impulse_one:
  "computeSTFT (impulse 1) (replicate 1 (Fin 1)) = Some [Fin 1, Fin 0]"
  by (simp add: computeSTFT_def impulse_def getf_def performFFT_def bitrev_loop_exit
      stage_loop_exit)





section \<open>The number of frames\<close>

lemma jmax_fin: "jmax (Fin a) (Fin b) = Fin (max a b)"
  by (simp add: max_def)

lemma jmin_fin: "jmin (Fin a) (Fin b) = Fin (min a b)"
  by (simp add: min_def)

lemma nFramesOf_value:
  "0 < step \<Longrightarrow> nFramesOf len step = Fin (of_int (spec_nFrames len step))"
  by (simp add: nFramesOf_def spec_nFrames_def jsub_def jmax_fin del: jmax.simps)

lemma frameCount_nFramesOf:
  "0 < step \<Longrightarrow> frameCount (nFramesOf len step) = Some (nat (spec_nFrames len step))"
  by (simp add: nFramesOf_value)

lemma spec_nFrames_short: "0 < step \<Longrightarrow> len < WINDOW_SIZE \<Longrightarrow> spec_nFrames len step = 1"
proof -
  assume "0 < step" "len < WINDOW_SIZE"
  then have "(real len - real WINDOW_SIZE) / step < 0"
    by (simp add: divide_neg_pos)
  then have "\<lfloor>(real len - real WINDOW_SIZE) / step\<rfloor> < 0"
    by (simp add: floor_less_iff)
  then show ?thesis by (simp add: spec_nFrames_def)
qed

lemma spec_nFrames_long:
  assumes "0 < step" "WINDOW_SIZE \<le> len"
  shows "spec_nFrames len step = \<lfloor>(real len - real WINDOW_SIZE) / step\<rfloor> + 1"
proof -
  have "0 \<le> (real len - real WINDOW_SIZE) / step" using assms by simp
  then have "0 \<le> \<lfloor>(real len - real WINDOW_SIZE) / step\<rfloor>" by simp
  then show ?thesis by (simp add: spec_nFrames_def)
qed

text \<open>
  Claim C7. For every audio input and every positive step, the number of frames that
  \<open>analyzeReassignment\<close> processes is \<open>max(1, floor((len(audio) - N) / step) + 1)\<close>: the
  frame loop runs over exactly the frames \<open>0, \<dots>, nFrames - 1\<close> for this number, which is at
  least 1, and is 1 when the input is shorter than the window.
\<close>

theorem analyzeReassignment_frame_count:
  assumes "0 < step"
  shows "frameCount (nFramesOf (length audioData) step) =
           Some (nat (spec_nFrames (length audioData) step)) \<and>
         1 \<le> spec_nFrames (length audioData) step \<and>
         (length audioData < WINDOW_SIZE \<longrightarrow> spec_nFrames (length audioData) step = 1) \<and>
         analyzeReassignment prevPhase audioData sampleRate step K tm =
           ofold (frameStep sampleRate K
                    (bank_h (createHermiteFunctions WINDOW_SIZE K tm))
                    (bank_Dh (createHermiteFunctions WINDOW_SIZE K tm))
                    (normalizeAudio audioData) step)
             [0..<nat (spec_nFrames (length audioData) step)]
             (replicate (WINDOW_SIZE div 2) 0, prevPhase)"
proof -
  have "1 \<le> spec_nFrames (length audioData) step"
    by (simp add: spec_nFrames_def)
  then show ?thesis
    using assms
    by (simp add: frameCount_nFramesOf spec_nFrames_short analyzeReassignment_def Let_def)
qed

theorem analyzeReassignment_frame_count_witness:
  "frameCount (nFramesOf (length (replicate 1024 (Fin 1))) 512) = Some 1 \<and>
   frameCount (nFramesOf (length (replicate 4096 (Fin 1))) 512) = Some 5"
  using analyzeReassignment_frame_count [of 512 "replicate 1024 (Fin 1)" "[]" 44100 6 6]
    analyzeReassignment_frame_count [of 512 "replicate 4096 (Fin 1)" "[]" 44100 6 6]
  by (simp add: spec_nFrames_def WINDOW_SIZE_def)

section \<open>The reassignment of one bin\<close>

lemma atan2r_range: "- pi \<le> atan2r y x \<and> atan2r y x \<le> pi"
proof -
  have lo: "- (pi / 2) < arctan (y / x)" and hi: "arctan (y / x) < pi / 2"
    by (rule arctan_lbound, rule arctan_ubound)
  show ?thesis
  proof (cases "x < 0")
    case True
    show ?thesis
    proof (cases "0 \<le> y")
      case y: True
      with True have "y / x \<le> 0" by (simp add: divide_nonneg_neg)
      then have "arctan (y / x) \<le> 0" by (simp add: arctan_le_zero_iff)
      moreover have "- pi \<le> arctan (y / x) + pi" using lo pi_gt_zero by linarith
      ultimately show ?thesis using True y by (simp add: atan2r_def)
    next
      case y: False
      with True have "0 < y / x" by (simp add: divide_neg_neg)
      then have "0 < arctan (y / x)" by (simp add: zero_less_arctan_iff)
      moreover have "arctan (y / x) - pi \<le> pi" using hi pi_gt_zero by linarith
      ultimately show ?thesis using True y by (simp add: atan2r_def)
    qed
  next
    case False
    with lo hi pi_gt_zero show ?thesis by (auto simp: atan2r_def)
  qed
qed

lemma pi_bounds:
  "- pi \<le> pi / 2" "- pi \<le> pi / 4" "- pi \<le> 3 * pi / 4" "3 * pi / 4 \<le> pi"
  "- (pi / 2) \<le> pi" "- (pi / 4) \<le> pi" "- (3 * pi / 4) \<le> pi" "- pi \<le> - (3 * pi / 4)"
  using pi_gt_zero by linarith+

lemma jatan2_isAngle: "isAngle (jatan2 a b)"
  by (cases a; cases b) (simp_all add: atan2r_range pi_bounds)

lemma wrapDown_id: "\<not> jgt x (Fin pi) \<Longrightarrow> wrapDown x = Some x"
  by (subst wrapDown.simps) simp

lemma wrapUp_id: "\<not> jlt x (Fin (- pi)) \<Longrightarrow> wrapUp x = Some x"
  by (subst wrapUp.simps) simp

lemma phase_quotient:
  assumes "- pi \<le> a" "a \<le> pi" "- pi \<le> b" "b \<le> pi"
  shows "- pi < (b - a) / (2 * pi) \<and> (b - a) / (2 * pi) < pi"
proof -
  have p: "0 < 2 * pi" using pi_gt_zero by simp
  have "\<bar>b - a\<bar> \<le> 2 * pi" using assms by linarith
  then have "\<bar>(b - a) / (2 * pi)\<bar> \<le> 1" using p by (simp add: abs_if field_simps split: if_splits)
  moreover have "1 < pi" using pi_ge_two by linarith
  ultimately show ?thesis by linarith
qed

lemma clamp_isOffset:
  "isOffset (jmax (jneg (Fin 50)) (jmin (Fin 50) (jdiv (jmul x (Fin sr)) (Fin (real WINDOW_SIZE)))))"
  by (cases x) (simp_all add: WINDOW_SIZE_def jinf_def)

lemma offsetHz_total:
  "\<exists>v. offsetHz sampleRate stft freqMod bin = Some v \<and> isOffset v"
proof -
  let ?p = "binPhase stft bin" and ?q = "binPhase freqMod bin"
  let ?d = "jdiv (jsub ?q ?p) (Fin (2 * pi))"
  have ap: "isAngle ?p" and aq: "isAngle ?q"
    by (simp_all add: binPhase_def Let_def jatan2_isAngle)
  have "\<not> jgt ?d (Fin pi) \<and> \<not> jlt ?d (Fin (- pi))"
  proof (cases ?p; cases ?q)
    fix a b assume pq: "?p = Fin a" "?q = Fin b"
    with ap aq have "- pi \<le> a" "a \<le> pi" "- pi \<le> b" "b \<le> pi" by simp_all
    from phase_quotient [OF this] pq pi_gt_zero show ?thesis
      by (simp add: jsub_def jgt_def)
  qed (use ap aq in \<open>simp_all add: jsub_def jgt_def\<close>)
  then have "wrapDown ?d = Some ?d" "wrapUp ?d = Some ?d"
    by (simp_all add: wrapDown_id wrapUp_id)
  then show ?thesis
    by (simp add: offsetHz_def Let_def clamp_isOffset [simplified])
qed

lemma jround_Fin: "jround a = Fin r \<Longrightarrow> \<exists>z::int. r = of_int z"
  by (cases a) auto

lemma reassignedBinOf_Fin:
  assumes "reassignedBinOf sampleRate bin v = Fin r"
  shows "v \<noteq> NaN \<and> (\<exists>z::int. r = of_int z)"
proof
  show "v \<noteq> NaN"
  proof
    assume "v = NaN"
    with assms show False
      by (cases "binFreqOf sampleRate bin") (simp_all add: reassignedBinOf_def Let_def)
  qed
  from assms show "\<exists>z::int. r = of_int z"
    unfolding reassignedBinOf_def Let_def by (rule jround_Fin)
qed

lemma binStep_cases:
  "\<exists>s'. binStep sampleRate stft freqMod bin s = Some s' \<and>
        length (tfr s') = length (tfr s) \<and>
        (tfr s' = tfr s \<or>
         (\<exists>off b'. offsetHz sampleRate stft freqMod bin = Some (Fin off) \<and>
                   - 50 \<le> off \<and> off \<le> 50 \<and>
                   reassignedBinOf sampleRate bin (Fin off) = Fin (real b') \<and>
                   b' < WINDOW_SIZE div 2 \<and>
                   tfr s' = (tfr s)[b' := jadd (getf (tfr s) b')
                                (contribution sampleRate bin (binMagnitude stft bin)
                                   (maxMagnitude s') (Fin (real b')))]))"
proof (cases "jgt (binMagnitude stft bin) (jmul (maxMagnitude s) (Fin 0.01))")
  case False
  then show ?thesis by (simp add: binStep_def Let_def)
next
  case True
  from offsetHz_total obtain v where v: "offsetHz sampleRate stft freqMod bin = Some v"
    and iv: "isOffset v" by blast
  show ?thesis
  proof (cases "reassignedBinOf sampleRate bin v")
    case (Fin r)
    show ?thesis
    proof (cases "0 \<le> r \<and> r < real (WINDOW_SIZE div 2)")
      case False
      show ?thesis using True by (simp add: binStep_def Let_def v Fin False)
    next
      case rng: True
      from reassignedBinOf_Fin [OF Fin] obtain z :: int where nn: "v \<noteq> NaN" and z: "r = of_int z"
        by blast
      from iv nn obtain off where off: "v = Fin off" "- 50 \<le> off" "off \<le> 50"
        by (cases v) auto
      define b' where "b' = nat z"
      from rng z have rb: "r = real b'" and idx: "nat \<lfloor>r\<rfloor> = b'"
        and lt: "b' < WINDOW_SIZE div 2"
        by (simp_all add: b'_def) linarith
      let ?s' = "\<lparr>tfr = (tfr s)[b' := jadd (getf (tfr s) b')
                       (contribution sampleRate bin (binMagnitude stft bin)
                          (jmax (maxMagnitude s) (binMagnitude stft bin)) (Fin (real b')))],
                  maxMagnitude = jmax (maxMagnitude s) (binMagnitude stft bin),
                  previousPhase = (previousPhase s)[bin := binPhase stft bin]\<rparr>"
      have A: "binStep sampleRate stft freqMod bin s = Some ?s'"
        using True rng by (simp add: binStep_def Let_def v Fin idx) (simp add: rb)
      have len: "length (tfr ?s') = length (tfr s)" by simp
      have tf: "tfr ?s' = (tfr s)[b' := jadd (getf (tfr s) b')
                  (contribution sampleRate bin (binMagnitude stft bin)
                     (maxMagnitude ?s') (Fin (real b')))]" by simp
      have rbin: "reassignedBinOf sampleRate bin (Fin off) = Fin (real b')"
        using Fin off rb by simp
      have "\<exists>off b'. offsetHz sampleRate stft freqMod bin = Some (Fin off) \<and>
                   - 50 \<le> off \<and> off \<le> 50 \<and>
                   reassignedBinOf sampleRate bin (Fin off) = Fin (real b') \<and>
                   b' < WINDOW_SIZE div 2 \<and>
                   tfr ?s' = (tfr s)[b' := jadd (getf (tfr s) b')
                                (contribution sampleRate bin (binMagnitude stft bin)
                                   (maxMagnitude ?s') (Fin (real b')))]"
        using v off lt rbin tf by blast
      with A len show ?thesis by blast
    qed
  qed (use True v in \<open>simp_all add: binStep_def Let_def\<close>)
qed

text \<open>
  Claim C8. In every step of the bin loop of \<open>analyzeReassignment\<close> the step returns, and
  the energy vector is either left as it is or changed at exactly one entry \<open>b'\<close>, the
  reassigned bin, with \<open>0 \<le> b' < N / 2\<close>; in that case the frequency correction applied is
  a number \<open>off\<close> with \<open>-50 \<le> off \<le> 50\<close>. The vector keeps its length, so no write falls
  outside it. The correction computed for a bin is in every case either NaN (then nothing
  is accumulated) or within \<open>[-50, 50]\<close>.
\<close>

theorem binStep_reassignment_bounds:
  "\<exists>s'. binStep sampleRate stft freqMod bin s = Some s' \<and>
        length (tfr s') = length (tfr s) \<and>
        (tfr s' = tfr s \<or>
         (\<exists>off b'. offsetHz sampleRate stft freqMod bin = Some (Fin off) \<and>
                   - 50 \<le> off \<and> off \<le> 50 \<and>
                   reassignedBinOf sampleRate bin (Fin off) = Fin (real b') \<and>
                   b' < WINDOW_SIZE div 2 \<and>
                   tfr s' = (tfr s)[b' := jadd (getf (tfr s) b')
                                (contribution sampleRate bin (binMagnitude stft bin)
                                   (maxMagnitude s') (Fin (real b')))])) \<and>
        (\<exists>v. offsetHz sampleRate stft freqMod bin = Some v \<and>
             (v = NaN \<or> (\<exists>off. v = Fin off \<and> - 50 \<le> off \<and> off \<le> 50)))"
proof -
  from offsetHz_total [of sampleRate stft freqMod bin]
  obtain v where v: "offsetHz sampleRate stft freqMod bin = Some v" and iv: "isOffset v"
    by blast
  from iv have "v = NaN \<or> (\<exists>off. v = Fin off \<and> - 50 \<le> off \<and> off \<le> 50)"
    by (cases v) simp_all
  with v binStep_cases [of sampleRate stft freqMod bin s] show ?thesis by blast
qed

theorem binStep_reassignment_bounds_witness:
  "\<exists>s'. binStep 44100 [Fin 1, Fin 0] [Fin 1, Fin 0] 0
           \<lparr>tfr = replicate 1024 (Fin 0), maxMagnitude = Fin 0,
            previousPhase = replicate 2048 (Fin 0)\<rparr> = Some s' \<and>
        length (tfr s') = 1024"
  using binStep_reassignment_bounds [of 44100 "[Fin 1, Fin 0]" "[Fin 1, Fin 0]" 0
      "\<lparr>tfr = replicate 1024 (Fin 0), maxMagnitude = Fin 0,
        previousPhase = replicate 2048 (Fin 0)\<rparr>"]
  by auto

section \<open>The output does not depend on the phase memory\<close>

lemma ofold_rel:
  assumes "\<And>x s t. R s t \<Longrightarrow> rel_option R (f x s) (g x t)" and "R s t"
  shows "rel_option R (ofold f xs s) (ofold g xs t)"
  using assms(2)
proof (induction xs arbitrary: s t)
  case Nil
  then show ?case by simp
next
  case (Cons x xs)
  from assms(1) [OF Cons.prems, of x] show ?case
    by (cases "f x s"; cases "g x t") (simp_all add: Cons.IH)
qed

lemma binStep_sameEnergy:
  assumes "sameEnergy s t"
  shows "rel_option sameEnergy (binStep sampleRate stft freqMod bin s)
                               (binStep sampleRate stft freqMod bin t)"
proof -
  from offsetHz_total obtain v where v: "offsetHz sampleRate stft freqMod bin = Some v" by blast
  show ?thesis
    using assms
    by (cases "reassignedBinOf sampleRate bin v")
       (simp_all add: binStep_def Let_def v sameEnergy_def)
qed

lemma taperPass_sameEnergy:
  assumes "sameEnergy s t"
  shows "rel_option sameEnergy (taperPass sampleRate hs Dhs frameData k s)
                               (taperPass sampleRate hs Dhs frameData k t)"
  unfolding taperPass_def Let_def
  by (auto split: option.splits intro!: ofold_rel binStep_sameEnergy assms)

lemma frameStep_sameResult:
  assumes "sameResult a b"
  shows "rel_option sameResult (frameStep sampleRate K hs Dhs nd step frame a)
                               (frameStep sampleRate K hs Dhs nd step frame b)"
proof -
  let ?f = "taperPass sampleRate hs Dhs (frameDataOf nd step frame)"
  let ?s = "\<lambda>p. \<lparr>tfr = replicate (WINDOW_SIZE div 2) (Fin 0), maxMagnitude = Fin 0,
                  previousPhase = p\<rparr>"
  have "rel_option sameEnergy (ofold ?f [0..<K] (?s (snd a))) (ofold ?f [0..<K] (?s (snd b)))"
    by (rule ofold_rel [where R = sameEnergy]) (simp_all add: taperPass_sameEnergy sameEnergy_def)
  then show ?thesis
    using assms
    by (cases "ofold ?f [0..<K] (?s (snd a))"; cases "ofold ?f [0..<K] (?s (snd b))")
       (simp_all add: frameStep_def Let_def sameResult_def sameEnergy_def)
qed

lemma analyzeReassignment_sameResult:
  "rel_option sameResult (analyzeReassignment pp1 audioData sampleRate step K tm)
                         (analyzeReassignment pp2 audioData sampleRate step K tm)"
proof (cases "frameCount (nFramesOf (length audioData) step)")
  case None
  then show ?thesis by (simp add: analyzeReassignment_def Let_def)
next
  case (Some n)
  have "rel_option sameResult
          (ofold (frameStep sampleRate K (bank_h (createHermiteFunctions WINDOW_SIZE K tm))
                    (bank_Dh (createHermiteFunctions WINDOW_SIZE K tm))
                    (normalizeAudio audioData) step)
             [0..<n] (replicate (WINDOW_SIZE div 2) 0, pp1))
          (ofold (frameStep sampleRate K (bank_h (createHermiteFunctions WINDOW_SIZE K tm))
                    (bank_Dh (createHermiteFunctions WINDOW_SIZE K tm))
                    (normalizeAudio audioData) step)
             [0..<n] (replicate (WINDOW_SIZE div 2) 0, pp2))"
    by (rule ofold_rel [where R = sameResult]) (simp_all add: frameStep_sameResult sameResult_def)
  with Some show ?thesis by (simp add: analyzeReassignment_def Let_def)
qed

text \<open>
  Claim C5. \<open>analyzeReassignment\<close> is deterministic: its output is a function of the audio
  buffer, the sample rate, the step, \<open>K\<close> and \<open>tm\<close> alone. The only state that survives a
  call is the module-level buffer \<open>previousPhase\<close>, which the bin loop writes and never
  reads: started from any two contents of that buffer (in particular the one a previous
  call has left behind), the function returns the same output array, or does not return in
  both cases. The window bank is computed by \<open>createHermiteFunctions\<close> from
  \<open>(WINDOW_SIZE, K, tm)\<close>, which reads no state at all.
\<close>

theorem analyzeReassignment_deterministic:
  "map_option fst (analyzeReassignment pp1 audioData sampleRate step K tm) =
   map_option fst (analyzeReassignment pp2 audioData sampleRate step K tm)"
  using analyzeReassignment_sameResult [of pp1 audioData sampleRate step K tm pp2]
  by (cases "analyzeReassignment pp1 audioData sampleRate step K tm";
      cases "analyzeReassignment pp2 audioData sampleRate step K tm")
     (simp_all add: sameResult_def)

section \<open>Silent input\<close>

lemma nth_update_any: "xs[i := x] ! j = (if i = j \<and> i < length xs then x else xs ! j)"
  by (cases "i < length xs") (simp_all add: nth_list_update list_update_beyond)

lemma evensNaN_nth: "evensNaN f \<Longrightarrow> 2 * i < length f \<Longrightarrow> f ! (2 * i) = NaN"
  unfolding evensNaN_def getf_def by (drule spec [of _ i]) simp

lemma evensNaN_update_even:
  assumes "evensNaN f"
  shows "evensNaN (f[2 * j := NaN])"
  unfolding evensNaN_def
proof
  fix i
  show "getf (f[2 * j := NaN]) (2 * i) = NaN"
    using evensNaN_nth [OF assms, of i] by (simp add: getf_def nth_update_any)
qed

lemma evensNaN_update_odd:
  assumes "evensNaN f"
  shows "evensNaN (f[2 * j + 1 := v])"
  unfolding evensNaN_def
proof
  fix i
  have "2 * j + 1 \<noteq> 2 * i" by presburger
  then show "getf (f[2 * j + 1 := v]) (2 * i) = NaN"
    using evensNaN_nth [OF assms, of i] by (simp add: getf_def nth_update_any)
qed

lemma evensNaN_get: "evensNaN f \<Longrightarrow> getf f (2 * i) = NaN"
  by (simp add: evensNaN_def)

lemma jadd_NaN_left: "jadd NaN b = NaN"
  by simp

lemma jsub_NaN_left: "jsub NaN b = NaN"
  by (simp add: jsub_def)

lemma swap_complex_evensNaN:
  assumes "evensNaN f"
  shows "evensNaN (swap_complex f a b)"
proof -
  have e: "a * 2 = 2 * a" "b * 2 = 2 * b" by simp_all
  show ?thesis
    unfolding swap_complex_def Let_def e
    by (simp only: evensNaN_get [OF assms])
       (intro evensNaN_update_odd evensNaN_update_even assms)
qed

lemma butterfly_evensNaN:
  assumes "evensNaN f"
  shows "evensNaN (butterfly c s step g pair f)"
proof -
  have e: "g * 2 + pair * 2 = 2 * (g + pair)"
    "2 * (g + pair) + step * 2 = 2 * (g + pair + step)" by simp_all
  show ?thesis
    unfolding butterfly_def Let_def e
    by (simp only: evensNaN_get [OF assms] jsub_NaN_left jadd_NaN_left)
       (intro evensNaN_update_odd evensNaN_update_even assms)
qed

lemma performFFT_empty: "performFFT [] = Some []"
  by (simp add: performFFT_def bitrev_loop_exit stage_loop_exit)

lemma stft_input_NaN:
  "evensNaN (concat (map (\<lambda>i. [jmul (getf (replicate n NaN) i) (getf w i), Fin 0]) [0..<n]))"
  unfolding evensNaN_def
proof
  fix i
  show "getf (concat (map (\<lambda>i. [jmul (getf (replicate n NaN) i) (getf w i), Fin 0]) [0..<n]))
          (2 * i) = NaN"
  proof (cases "i < n")
    case True
    then show ?thesis by (simp add: getf_def interleave_length interleave_nth)
  next
    case False
    then show ?thesis by (simp add: getf_def interleave_length)
  qed
qed

lemma computeSTFT_NaN:
  assumes "n = 0 \<or> (\<exists>m. n = 2 ^ m)"
  shows "\<exists>stft. computeSTFT (replicate n NaN) w = Some stft \<and> evensNaN stft"
proof (cases "n = 0")
  case True
  then show ?thesis by (simp add: computeSTFT_def performFFT_empty evensNaN_def getf_def)
next
  case False
  with assms obtain m where m: "n = 2 ^ m" by blast
  let ?inp = "concat (map (\<lambda>i. [jmul (getf (replicate n NaN) i) (getf w i), Fin 0]) [0..<n])"
  have "\<exists>out. performFFT ?inp = Some out \<and> evensNaN out"
  proof (rule performFFT_inv [where Q = evensNaN and m = m])
    show "length ?inp = 2 * 2 ^ m" by (simp add: interleave_length m)
    show "evensNaN ?inp" by (rule stft_input_NaN)
  qed (simp_all add: swap_complex_evensNaN butterfly_evensNaN)
  then show ?thesis by (simp add: computeSTFT_def length_replicate)
qed

lemma jlt_NaN_right: "\<not> jlt a NaN"
  by (cases a) simp_all

lemma binStep_NaN:
  assumes "evensNaN stft"
  shows "binStep sampleRate stft freqMod bin s = Some s"
proof -
  have "getf stft (bin * 2) = NaN" using evensNaN_get [OF assms, of bin] by (simp add: mult.commute)
  then have "binMagnitude stft bin = NaN" by (simp add: binMagnitude_def Let_def)
  then show ?thesis by (simp add: binStep_def Let_def jgt_def jlt_NaN_right)
qed

lemma ofold_id: "(\<And>x. x \<in> set xs \<Longrightarrow> f x s = Some s) \<Longrightarrow> ofold f xs s = Some s"
  by (induction xs) simp_all

lemma taperPass_NaN:
  assumes "n = 0 \<or> (\<exists>m. n = 2 ^ m)"
  shows "taperPass sampleRate hs Dhs (replicate n NaN) k s = Some s"
proof -
  let ?tw = "sliceOf hs (real (k * WINDOW_SIZE)) (real ((k + 1) * WINDOW_SIZE))"
  let ?fw = "sliceOf Dhs (real (k * WINDOW_SIZE)) (real ((k + 1) * WINDOW_SIZE))"
  from computeSTFT_NaN [OF assms] obtain stft where
    a: "computeSTFT (replicate n NaN) ?tw = Some stft" and e: "evensNaN stft" by blast
  from computeSTFT_NaN [OF assms] obtain freqMod where
    b: "computeSTFT (replicate n NaN) ?fw = Some freqMod" by blast
  have "ofold (binStep sampleRate stft freqMod) [0..<WINDOW_SIZE div 2] s = Some s"
    by (rule ofold_id) (rule binStep_NaN [OF e])
  then show ?thesis
    by (simp only: taperPass_def Let_def a b option.case)
qed

lemma jmaxlist_zeros: "0 < n \<Longrightarrow> jmaxlist (replicate n (Fin 0)) = Fin 0"
proof -
  have "fold (\<lambda>x acc. jmax acc x) (replicate n (Fin 0)) (Fin 0) = Fin 0" for n
    by (induction n) simp_all
  moreover assume "0 < n"
  ultimately show ?thesis by (cases n) (simp_all add: jmaxlist_def)
qed

lemma frameStep_NaN:
  assumes "frameDataOf nd step frame = replicate n NaN" "n = 0 \<or> (\<exists>m. n = 2 ^ m)"
  shows "frameStep sampleRate K hs Dhs nd step frame st = Some st"
proof -
  let ?s0 = "\<lparr>tfr = replicate (WINDOW_SIZE div 2) (Fin 0), maxMagnitude = Fin 0,
               previousPhase = snd st\<rparr>"
  have "ofold (taperPass sampleRate hs Dhs (replicate n NaN)) [0..<K] ?s0 = Some ?s0"
    by (rule ofold_id) (rule taperPass_NaN [OF assms(2)])
  moreover have "jmaxlist (replicate (WINDOW_SIZE div 2) (Fin 0)) = Fin 0"
    by (rule jmaxlist_zeros) (simp add: WINDOW_SIZE_def)
  ultimately show ?thesis
    by (simp add: frameStep_def Let_def assms(1) jgt_def)
qed

lemma normalizeAudio_zeros: "normalizeAudio (replicate L (Fin 0)) = replicate L NaN"
proof (cases "L = 0")
  case True
  then show ?thesis by (simp add: normalizeAudio_def)
next
  case False
  then have "jmaxlist (map jabs (replicate L (Fin 0))) = Fin 0"
    by (simp add: jmaxlist_zeros)
  then show ?thesis by (simp add: normalizeAudio_def Let_def map_replicate_const)
qed

lemma sliceIndex_nonneg: "0 \<le> x \<Longrightarrow> sliceIndex len x = min (nat \<lfloor>x\<rfloor>) len"
  by (simp add: sliceIndex_def truncInt_def Let_def min_def) linarith

lemma sliceOf_from:
  assumes "0 \<le> start"
  shows "sliceOf xs start (start + real w) = take w (drop (nat \<lfloor>start\<rfloor>) xs)"
proof -
  let ?a = "nat \<lfloor>start\<rfloor>"
  have fl: "nat (\<lfloor>start\<rfloor> + int w) = ?a + w"
    using assms by (simp add: nat_add_distrib)
  have "sliceOf xs start (start + real w) =
        take (min (?a + w) (length xs) - min ?a (length xs)) (drop (min ?a (length xs)) xs)"
    using assms by (simp add: sliceOf_def Let_def sliceIndex_nonneg fl)
  also have "\<dots> = take w (drop ?a xs)"
  proof (cases "?a \<le> length xs")
    case True
    then have "min (?a + w) (length xs) - min ?a (length xs) = min w (length (drop ?a xs))"
      by (simp add: min_def) linarith
    moreover have "take (min w (length (drop ?a xs))) (drop ?a xs) = take w (drop ?a xs)"
      by (cases "w \<le> length (drop ?a xs)") (simp_all add: min_def)
    ultimately show ?thesis using True by (simp only: min_absorb1)
  next
    case False
    then show ?thesis by simp
  qed
  finally show ?thesis .
qed

lemma frameDataOf_first: "frameDataOf xs step 0 = take WINDOW_SIZE xs"
  using sliceOf_from [of 0 xs WINDOW_SIZE] by (simp add: frameDataOf_def)

lemma frameDataOf_replicate:
  "0 \<le> step \<Longrightarrow>
   frameDataOf (replicate L x) step frame =
   replicate (min WINDOW_SIZE (L - nat \<lfloor>real frame * step\<rfloor>)) x"
  by (simp add: frameDataOf_def Let_def sliceOf_from min.commute)

lemma frame_in_range:
  assumes "0 < step" "WINDOW_SIZE \<le> L" "frame < nat (spec_nFrames L step)"
  shows "WINDOW_SIZE \<le> L - nat \<lfloor>real frame * step\<rfloor>"
proof -
  from assms have "int frame \<le> \<lfloor>(real L - real WINDOW_SIZE) / step\<rfloor>"
    by (simp add: spec_nFrames_long)
  then have "real frame \<le> (real L - real WINDOW_SIZE) / step"
    by (simp add: le_floor_iff)
  then have "real frame * step \<le> real L - real WINDOW_SIZE"
    using assms(1) by (simp add: pos_le_divide_eq)
  then have "\<lfloor>real frame * step\<rfloor> \<le> int L - int WINDOW_SIZE"
    by (simp add: floor_le_iff)
  then show ?thesis using assms(2) by linarith
qed

lemma WINDOW_SIZE_pow2: "WINDOW_SIZE = 2 ^ 11"
  by (simp add: WINDOW_SIZE_def)

lemma zero_frames:
  assumes "0 < step" "L = 0 \<or> (\<exists>m. L = 2 ^ m) \<or> WINDOW_SIZE \<le> L"
    and "frame < nat (spec_nFrames L step)"
  shows "\<exists>n. frameDataOf (replicate L NaN) step frame = replicate n NaN \<and>
             (n = 0 \<or> (\<exists>m. n = 2 ^ m))"
proof (cases "WINDOW_SIZE \<le> L")
  case True
  from frame_in_range [OF assms(1) True assms(3)]
  have "min WINDOW_SIZE (L - nat \<lfloor>real frame * step\<rfloor>) = WINDOW_SIZE" by simp
  moreover have "\<exists>m. WINDOW_SIZE = 2 ^ m"
    by (rule exI [of _ 11]) (rule WINDOW_SIZE_pow2)
  moreover have "0 \<le> step" using assms(1) by simp
  ultimately show ?thesis by (simp only: frameDataOf_replicate) blast
next
  case False
  then have short: "L < WINDOW_SIZE" by simp
  with assms(1,3) have "frame = 0" by (simp add: spec_nFrames_short)
  with short have "frameDataOf (replicate L NaN) step frame = replicate L NaN"
    by (simp add: frameDataOf_first)
  with assms(2) False show ?thesis by blast
qed

lemma ofold_id_upt:
  "(\<And>x. x < n \<Longrightarrow> f x s = Some s) \<Longrightarrow> ofold f [0..<n] s = Some s"
  by (rule ofold_id) simp

text \<open>
  Silence with frames the FFT accepts. For an all-zero input buffer the normalisation
  computes \<open>0 / 0 = NaN\<close> for every sample; every magnitude is then NaN, every comparison
  with it is false, no energy is accumulated and the output stays all zero (a
  \<^verbatim>\<open>Uint8Array\<close> holds no NaN). The call returns this all-zero vector whenever every frame
  has a length on which the FFT returns: the buffer is empty, or its length is a power of
  two, or it is at least one window long.
\<close>

lemma analyzeReassignment_zero_input:
  assumes "0 < step" "L = 0 \<or> (\<exists>m. L = 2 ^ m) \<or> WINDOW_SIZE \<le> L"
  shows "analyzeReassignment prevPhase (replicate L (Fin 0)) sampleRate step K tm =
         Some (replicate (WINDOW_SIZE div 2) 0, prevPhase)"
proof -
  let ?bank = "createHermiteFunctions WINDOW_SIZE K tm"
  let ?st = "(replicate (WINDOW_SIZE div 2) (0::nat), prevPhase)"
  have "ofold (frameStep sampleRate K (bank_h ?bank) (bank_Dh ?bank) (replicate L NaN) step)
          [0..<nat (spec_nFrames L step)] ?st = Some ?st"
  proof (rule ofold_id_upt)
    fix frame assume "frame < nat (spec_nFrames L step)"
    from zero_frames [OF assms this] obtain n where
      "frameDataOf (replicate L NaN) step frame = replicate n NaN" "n = 0 \<or> (\<exists>m. n = 2 ^ m)"
      by blast
    then show "frameStep sampleRate K (bank_h ?bank) (bank_Dh ?bank) (replicate L NaN) step
                 frame ?st = Some ?st"
      by (rule frameStep_NaN)
  qed
  then show ?thesis
    using assms(1)
    by (simp add: analyzeReassignment_def Let_def normalizeAudio_zeros frameCount_nFramesOf)
qed





section \<open>Frames shorter than the window\<close>

lemma computeSTFT_length:
  assumes "length xs = 2 ^ m"
  shows "\<exists>stft. computeSTFT xs w = Some stft \<and> length stft = 2 * 2 ^ m"
  unfolding computeSTFT_def
  by (rule performFFT_inv [where Q = "\<lambda>f. length f = 2 * 2 ^ m"])
     (simp_all add: interleave_length assms swap_complex_length butterfly_length)

lemma normalizeAudio_length: "length (normalizeAudio xs) = length xs"
  by (simp add: normalizeAudio_def Let_def)

text \<open>
  Claim C9 says that a frame shorter than the window is validated or padded, so that the
  FFT only ever sees frames of the full window length 2048. The program does neither. For
  a buffer of 1024 samples (the length that \<open>updateSpectrogramm\<close> passes with the default
  analyser size) there is one frame, it has 1024 samples, and \<open>computeSTFT\<close> transforms
  these 1024 samples against the first half of the 2048-sample window: the spectrum has
  \<open>2 * 1024\<close> entries instead of \<open>2 * 2048\<close>.
\<close>

theorem short_frame_not_padded:
  "frameCount (nFramesOf (length (replicate 1024 (Fin 1))) (real WINDOW_SIZE / 4)) = Some 1 \<and>
   length (frameDataOf (normalizeAudio (replicate 1024 (Fin 1))) (real WINDOW_SIZE / 4) 0) = 1024 \<and>
   (\<exists>stft. computeSTFT (frameDataOf (normalizeAudio (replicate 1024 (Fin 1))) (real WINDOW_SIZE / 4) 0)
              (sliceOf (bank_h (createHermiteFunctions WINDOW_SIZE 6 6))
                 (real (0 * WINDOW_SIZE)) (real ((0 + 1) * WINDOW_SIZE))) = Some stft \<and>
           length stft = 2 * 1024)"
proof -
  have n: "frameCount (nFramesOf (length (replicate 1024 (Fin 1))) (real WINDOW_SIZE / 4)) = Some 1"
    using frameCount_nFramesOf [of "real WINDOW_SIZE / 4" 1024]
      spec_nFrames_short [of "real WINDOW_SIZE / 4" 1024]
    by (simp add: WINDOW_SIZE_def)
  have len: "length (frameDataOf (normalizeAudio (replicate 1024 (Fin 1))) (real WINDOW_SIZE / 4) 0)
             = 2 ^ 10"
    by (simp add: frameDataOf_first normalizeAudio_length WINDOW_SIZE_def)
  from computeSTFT_length [OF len] len n show ?thesis by simp
qed

section \<open>The shape of the output\<close>

text \<open>Whenever \<open>analyzeReassignment\<close> returns, its output has \<open>WINDOW_SIZE / 2\<close> entries.\<close>

lemma fold_update_length: "length (fold (\<lambda>i r. r[i := g i]) xs r) = length r"
  by (induction xs arbitrary: r) simp_all

lemma frameStep_length:
  "frameStep sampleRate K hs Dhs nd step frame st = Some st' \<Longrightarrow>
   length (fst st') = length (fst st)"
  by (auto simp: frameStep_def Let_def fold_update_length split: option.splits if_splits)

lemma ofold_preserves:
  assumes "\<And>x s s'. f x s = Some s' \<Longrightarrow> P s \<Longrightarrow> P s'"
  shows "ofold f xs s = Some s' \<Longrightarrow> P s \<Longrightarrow> P s'"
proof (induction xs arbitrary: s)
  case Nil
  then show ?case by simp
next
  case (Cons x xs)
  then show ?case by (cases "f x s") (auto dest: assms)
qed

lemma analyzeReassignment_length:
  assumes "analyzeReassignment prevPhase audioData sampleRate step K tm = Some (r, p)"
  shows "length r = WINDOW_SIZE div 2"
proof -
  let ?f = "frameStep sampleRate K (bank_h (createHermiteFunctions WINDOW_SIZE K tm))
              (bank_Dh (createHermiteFunctions WINDOW_SIZE K tm)) (normalizeAudio audioData) step"
  from assms obtain n where
    "ofold ?f [0..<n] (replicate (WINDOW_SIZE div 2) 0, prevPhase) = Some (r, p)"
    by (auto simp: analyzeReassignment_def Let_def split: option.splits)
  from ofold_preserves [where P = "\<lambda>st. length (fst st) = WINDOW_SIZE div 2", OF _ this]
  show ?thesis by (simp add: frameStep_length)
qed

end
